theory Spec2Isabelle
  imports Complex_Main "HOL-Library.Log_Nat"
begin

section \<open>Data model\<close>

text \<open>
  The scheduler of \<^verbatim>\<open>PS1/src/algorithm.ts\<close> works on JavaScript objects: flashcards,
  \<^verbatim>\<open>Set\<close>s of flashcards, a \<^verbatim>\<open>Map\<close> from bucket numbers to such sets, and arrays of
  such sets. \<^verbatim>\<open>update\<close> changes \<^verbatim>\<open>Set\<close> objects in place and \<^verbatim>\<open>toBucketSets\<close> hands
  the map's own \<^verbatim>\<open>Set\<close> objects on, so the sets are kept in an explicit store and
  the map and the arrays hold references into it.
\<close>

subsection \<open>Flashcards\<close>

text \<open>
  The scheduler compares flashcards where a set tests membership (\<^verbatim>\<open>has\<close>, \<^verbatim>\<open>delete\<close>,
  \<^verbatim>\<open>add\<close>) and never looks into one. The flashcards with their equality are a
  parameter of the model, the type \<open>'c\<close>: two cards are equal exactly when the sets of
  the program take them for the same element.
\<close>



text \<open>
  Modelled from the spec: the enumeration \<^verbatim>\<open>AnswerDifficulty\<close> of \<^verbatim>\<open>flashcards.ts\<close>
  (\<open>Wrong\<close>, \<open>Hard\<close>, \<open>Easy\<close>; no other value).
\<close>

datatype AnswerDifficulty = Wrong | Hard | Easy

subsection \<open>Sets of flashcards\<close>

text \<open>
  A JavaScript \<^verbatim>\<open>Set\<close> holds each element once, in insertion order: a list of
  cards. \<^verbatim>\<open>has\<close>, \<^verbatim>\<open>delete\<close>, \<^verbatim>\<open>add\<close> and \<^verbatim>\<open>size\<close>:
\<close>

type_synonym 'c JSSet = "'c list"

definition setHas :: "'c JSSet \<Rightarrow> 'c \<Rightarrow> bool" where
  "setHas cards c = (c \<in> set cards)"

definition setDelete :: "'c JSSet \<Rightarrow> 'c \<Rightarrow> 'c JSSet" where
  "setDelete cards c = removeAll c cards"

definition setAdd :: "'c JSSet \<Rightarrow> 'c \<Rightarrow> 'c JSSet" where
  "setAdd cards c = (if c \<in> set cards then cards else cards @ [c])"

definition setSize :: "'c JSSet \<Rightarrow> nat" where
  "setSize cards = length cards"

text \<open>
  The store of \<^verbatim>\<open>Set\<close> objects: the reference of a set is its position, and
  \<^verbatim>\<open>new Set()\<close> appends an empty set.
\<close>

type_synonym setref = nat
type_synonym 'c store = "'c JSSet list"

definition newSet :: "'c store \<Rightarrow> 'c store \<times> setref" where
  "newSet h = (h @ [[]], length h)"

subsection \<open>The bucket map\<close>

text \<open>
  Modelled from the spec: the type \<^verbatim>\<open>BucketMap\<close> of \<^verbatim>\<open>flashcards.ts\<close>, a
  \<^verbatim>\<open>Map<number, Set<Flashcard>>\<close> as the tests build it. A JavaScript \<^verbatim>\<open>Map\<close> iterates
  its entries in insertion order: the list of its entries, each a bucket number and
  the reference of the bucket's \<^verbatim>\<open>Set\<close>. The spec's bucket numbers are integers. A
  key of the program is an integer that is a double; the model has every integer as
  a key, and computes on keys as the program does on doubles (\<open>plusOne\<close> below).
\<close>

type_synonym BucketMap = "(int \<times> setref) list"

definition mapGet :: "BucketMap \<Rightarrow> int \<Rightarrow> setref option" where
  "mapGet buckets k = map_of buckets k"

definition mapHas :: "BucketMap \<Rightarrow> int \<Rightarrow> bool" where
  "mapHas buckets k = (map_of buckets k \<noteq> None)"

fun mapSet :: "BucketMap \<Rightarrow> int \<Rightarrow> setref \<Rightarrow> BucketMap" where
  "mapSet [] k v = [(k, v)]"
| "mapSet ((k', v') # es) k v =
     (if k' = k then (k, v) # es else (k', v') # mapSet es k v)"

text \<open>
  A bucket map in a store: a \<^verbatim>\<open>Map\<close> has each key once, and every value is a \<^verbatim>\<open>Set\<close>
  object of the store.
\<close>

definition wfBuckets :: "'c store \<Rightarrow> BucketMap \<Rightarrow> bool" where
  "wfBuckets h buckets \<longleftrightarrow>
     distinct (map fst buckets) \<and> (\<forall>s \<in> set (map snd buckets). s < length h)"

text \<open>
  Every bucket has a \<^verbatim>\<open>Set\<close> object of its own, as in
  \<^verbatim>\<open>new Map([[0, new Set(..)], [1, new Set(..)]])\<close>. The type \<^verbatim>\<open>Map<number, Set<Flashcard>>\<close>
  also has the maps that hold one \<^verbatim>\<open>Set\<close> object under two keys
  (\<^verbatim>\<open>const s = new Set(); new Map([[0, s], [1, s]])\<close>); in such a map a card added to
  one of the two buckets is in the other as well.
\<close>

definition ownSets :: "BucketMap \<Rightarrow> bool" where
  "ownSets buckets \<longleftrightarrow> distinct (map snd buckets)"

text \<open>The cards of bucket \<open>i\<close>; an absent bucket number is an empty bucket.\<close>

definition bucketCards :: "'c store \<Rightarrow> BucketMap \<Rightarrow> int \<Rightarrow> 'c set" where
  "bucketCards h buckets i =
     (case mapGet buckets i of None \<Rightarrow> {} | Some s \<Rightarrow> set (h ! s))"

text \<open>
  The invariant of the spec's data model, "a given flashcard appears in at most one
  bucket", over the entries of the map.
\<close>

definition atMostOneBucket :: "'c store \<Rightarrow> BucketMap \<Rightarrow> bool" where
  "atMostOneBucket h buckets \<longleftrightarrow>
     (\<forall>(i, s) \<in> set buckets. \<forall>(j, t) \<in> set buckets.
        \<forall>c \<in> set (h ! s). c \<in> set (h ! t) \<longrightarrow> i = j)"

subsection \<open>Numbers\<close>

text \<open>
  The numbers of the program are IEEE 754 binary64 doubles. A finite double is
  modelled by the rational number it stands for, and an operation by the exact result
  rounded to the nearest double, ties to the even significand. The exponent range is
  left unbounded: the program's numbers are bucket numbers, counts of cards and
  percentages, far from its ends.
\<close>

type_synonym double = rat

definition roundTiesToEven :: "rat \<Rightarrow> int" where
  "roundTiesToEven q =
     (let n = \<lfloor>q\<rfloor>; r = q - of_int n in
      if r < 1 / 2 then n else if 1 / 2 < r then n + 1
      else if even n then n else n + 1)"

text \<open>For \<open>q > 0\<close>, the integer \<open>e\<close> with \<open>2\<^sup>e \<le> q < 2\<^sup>e\<^sup>+\<^sup>1\<close>.\<close>

definition floorLog2 :: "rat \<Rightarrow> int" where
  "floorLog2 q =
     (let (a, b) = quotient_of q;
          k = bitlen a - bitlen b
      in if 2 powi k \<le> q then k else k - 1)"

text \<open>The double nearest to a rational: 53 significant bits.\<close>

definition toDouble :: "rat \<Rightarrow> double" where
  "toDouble q =
     (if q = 0 then 0
      else let e = floorLog2 \<bar>q\<bar> - 52
           in sgn q * of_int (roundTiesToEven (\<bar>q\<bar> / 2 powi e)) * 2 powi e)"

definition jsAdd :: "double \<Rightarrow> double \<Rightarrow> double" where
  "jsAdd x y = toDouble (x + y)"

definition jsDiv :: "double \<Rightarrow> double \<Rightarrow> double" where
  "jsDiv x y = toDouble (x / y)"

definition jsMul :: "double \<Rightarrow> double \<Rightarrow> double" where
  "jsMul x y = toDouble (x * y)"

text \<open>
  \<^verbatim>\<open>k + 1\<close> for a bucket number \<open>k\<close>: the sum of two doubles. The double nearest to an
  integer is an integer (\<open>toDouble_of_int\<close> below), and the sum is kept as one. Up to
  \<open>2\<^sup>5\<^sup>3\<close> it is \<open>k + 1\<close>; the double \<open>2\<^sup>5\<^sup>3 + 1\<close> is \<open>2\<^sup>5\<^sup>3\<close>.
\<close>

definition plusOne :: "int \<Rightarrow> int" where
  "plusOne k = \<lfloor>jsAdd (of_int k) 1\<rfloor>"

text \<open>
  \<^verbatim>\<open>x.toFixed(2)\<close> (ECMAScript, Number.prototype.toFixed): the digits are the integer
  \<open>n\<close> for which \<open>n / 100 - x\<close> is as close to zero as possible, the larger \<open>n\<close> if there
  are two; a negative \<open>x\<close> is printed as the sign and the digits of \<open>-x\<close>. The
  string is kept as this number of hundredths.
\<close>

definition toFixed2 :: "double \<Rightarrow> int" where
  "toFixed2 x = (if x < 0 then - \<lfloor>- x * 100 + 1 / 2\<rfloor> else \<lfloor>x * 100 + 1 / 2\<rfloor>)"

text \<open>
  \<^verbatim>\<open>parseFloat\<close> of such a string: the double nearest to the decimal, which is also
  what the decimal literal of the same digits denotes (\<^verbatim>\<open>33.33\<close> is
  \<open>parseFloat2 3333\<close>, the double \<open>2345390243441541 / 2\<^sup>4\<^sup>6\<close>).
\<close>

definition parseFloat2 :: "int \<Rightarrow> double" where
  "parseFloat2 n = toDouble (of_int n / 100)"

section \<open>The scheduler\<close>

subsection \<open>update\<close>

text \<open>
  The loop of \<^verbatim>\<open>update\<close> (lines 49 to 55): the first entry, in the map's order, whose
  set has the card gives \<open>currentBucket\<close>; the card is deleted from that set, and the
  loop ends. \<open>None\<close> is \<^verbatim>\<open>undefined\<close>.
\<close>

fun findAndDelete :: "'c store \<Rightarrow> BucketMap \<Rightarrow> 'c \<Rightarrow> int option \<times> 'c store" where
  "findAndDelete h [] c = (None, h)"
| "findAndDelete h ((bucket, cards) # rest) c =
     (if setHas (h ! cards) c
      then (Some bucket, h[cards := setDelete (h ! cards) c])
      else findAndDelete h rest c)"

text \<open>The conditional expression of lines 61 to 66; the sum is a sum of doubles.\<close>

definition newBucketOf :: "int \<Rightarrow> AnswerDifficulty \<Rightarrow> int" where
  "newBucketOf currentBucket difficulty =
     (if difficulty = Wrong then 0
      else if difficulty = Hard then currentBucket
      else plusOne currentBucket)"

definition update ::
  "'c store \<Rightarrow> BucketMap \<Rightarrow> 'c \<Rightarrow> AnswerDifficulty \<Rightarrow> 'c store \<times> BucketMap" where
  "update h buckets c difficulty =
     (let (found, h1) = findAndDelete h buckets c;
          currentBucket = (case found of None \<Rightarrow> 0 | Some b \<Rightarrow> b);
          newBucket = newBucketOf currentBucket difficulty;
          (h2, buckets2) =
            (if \<not> mapHas buckets newBucket
             then (let (h', s) = newSet h1 in (h', mapSet buckets newBucket s))
             else (h1, buckets))
      in case mapGet buckets2 newBucket of
           None \<Rightarrow> (h2, buckets2)
         | Some s \<Rightarrow> (h2[s := setAdd (h2 ! s) c], buckets2))"

subsection \<open>Arrays of sets\<close>

text \<open>
  An \<^verbatim>\<open>Array<Set<Flashcard>>\<close> is an object: the list of its elements, which are
  references of sets, and its other own properties. \<^verbatim>\<open>buckets[i]\<close> reads the element
  at an index and, for a property name that is no index, the property of that name,
  \<^verbatim>\<open>undefined\<close> (\<open>None\<close>) if there is none. The names that the program can write and
  read besides the indices are the negative integers.
\<close>

record SetArray =
  elems :: "setref list"
  props :: "int \<rightharpoonup> setref"

definition arrayGet :: "SetArray \<Rightarrow> int \<Rightarrow> setref option" where
  "arrayGet a i =
     (if 0 \<le> i
      then (if i < int (length (elems a)) then Some (elems a ! nat i) else None)
      else props a i)"

text \<open>
  \<^verbatim>\<open>bucketArray[bucket] = flashcards\<close>. A negative bucket number is not an index: the
  assignment makes, or changes, the property of that name and changes no element.
  An index past the end would lengthen the array; \<^verbatim>\<open>toBucketSets\<close>, the one caller,
  never writes there, since every key is below the length \<^verbatim>\<open>maxBucket + 1\<close>
  (\<open>key_inside_array\<close> below), and the model leaves the array as it is.
\<close>

definition arraySet :: "SetArray \<Rightarrow> int \<Rightarrow> setref \<Rightarrow> SetArray" where
  "arraySet a i v =
     (if 0 \<le> i
      then (if i < int (length (elems a)) then a\<lparr>elems := (elems a)[nat i := v]\<rparr> else a)
      else a\<lparr>props := (props a)(i \<mapsto> v)\<rparr>)"

text \<open>
  \<^verbatim>\<open>Array.from({ length: n }, () => new Set<Flashcard>())\<close>: the callback runs once
  for each index, in order, and every call makes a new set.
\<close>

fun arrayFromNewSets :: "nat \<Rightarrow> 'c store \<Rightarrow> 'c store \<times> setref list" where
  "arrayFromNewSets 0 h = (h, [])"
| "arrayFromNewSets (Suc n) h =
     (let (h1, s) = newSet h; (h2, rest) = arrayFromNewSets n h1 in (h2, s # rest))"

subsection \<open>toBucketSets\<close>

text \<open>
  \<^verbatim>\<open>toBucketSets\<close> can throw. \<^verbatim>\<open>Math.max(...buckets.keys(), 0)\<close> is a call with one
  argument for each key and one more; an engine accepts only so many arguments in a
  call and throws a \<^verbatim>\<open>RangeError\<close> beyond that. The bound is not part of the language
  and is a parameter here, \<open>argLimit\<close>. \<^verbatim>\<open>Array.from({ length: maxBucket + 1 }, ..)\<close>
  makes an array of that length and throws a \<^verbatim>\<open>RangeError\<close> when the length exceeds
  \<open>2\<^sup>3\<^sup>2 - 1\<close>. Then comes the loop over the entries, which puts the map's own set of
  every bucket at the bucket's index; a value of the map is a \<^verbatim>\<open>Set\<close>, never
  \<^verbatim>\<open>undefined\<close>, so \<^verbatim>\<open>flashcards ?? new Set()\<close> is \<^verbatim>\<open>flashcards\<close>. The store has room for
  every set: the model has no bound on memory.
\<close>

datatype JSError = RangeError

definition toBucketSets ::
  "nat \<Rightarrow> 'c store \<Rightarrow> BucketMap \<Rightarrow> JSError + 'c store \<times> SetArray" where
  "toBucketSets argLimit h buckets =
     (if argLimit < length buckets + 1 then Inl RangeError
      else
        let maxBucket' = fold max (map fst buckets) 0 in
        if 4294967295 < plusOne maxBucket' then Inl RangeError
        else
          let (h1, bucketArray) = arrayFromNewSets (nat (plusOne maxBucket')) h
          in Inr (h1, fold (\<lambda>(bucket, flashcards) arr. arraySet arr bucket flashcards)
                           buckets \<lparr>elems = bucketArray, props = Map.empty\<rparr>))"

subsection \<open>getBucketRange\<close>

record BucketRange =
  minBucket :: nat
  maxBucket :: nat

text \<open>
  \<^verbatim>\<open>getBucketRange\<close> reads \<^verbatim>\<open>buckets.length\<close> and the elements at the indices below it,
  nothing else of the array: its argument here is the list of the elements.

  One step of the loop (lines 23 to 28) on the pair of \<open>minBucket\<close> and \<open>maxBucket\<close>,
  \<open>None\<close> being \<^verbatim>\<open>undefined\<close>. \<^verbatim>\<open>buckets[i]\<close> is a \<^verbatim>\<open>Set\<close> for every index of
  the array, and an object is truthy.
\<close>

definition rangeStep ::
  "'c store \<Rightarrow> setref list \<Rightarrow> nat \<Rightarrow> nat option \<times> nat option \<Rightarrow> nat option \<times> nat option" where
  "rangeStep h buckets i = (\<lambda>(minB, maxB).
     if setSize (h ! (buckets ! i)) > 0
     then ((if minB = None then Some i else minB), Some i)
     else (minB, maxB))"

definition getBucketRange :: "'c store \<Rightarrow> setref list \<Rightarrow> BucketRange option" where
  "getBucketRange h buckets =
     (case fold (rangeStep h buckets) [0..<length buckets] (None, None) of
        (Some a, Some b) \<Rightarrow> Some \<lparr>minBucket = a, maxBucket = b\<rparr>
      | _ \<Rightarrow> None)"

subsection \<open>practice\<close>

text \<open>
  \<^verbatim>\<open>result\<close> is a new set. The test of line 37, \<^verbatim>\<open>day < buckets.length && buckets[day]\<close>,
  has no lower bound on \<^verbatim>\<open>day\<close>: for a negative \<^verbatim>\<open>day\<close> it holds when the array has a
  property of that name. \<^verbatim>\<open>forEach\<close> then adds the cards of that set to \<^verbatim>\<open>result\<close> one
  by one, in the set's order.
\<close>

definition practice :: "'c store \<Rightarrow> SetArray \<Rightarrow> int \<Rightarrow> 'c store \<times> setref" where
  "practice h buckets day =
     (let (h1, result) = newSet h in
      case (if day < int (length (elems buckets)) then arrayGet buckets day else None) of
        None \<Rightarrow> (h1, result)
      | Some s \<Rightarrow>
          (fold (\<lambda>c hh. hh[result := setAdd (hh ! result) c]) (h1 ! s) h1, result))"

subsection \<open>computeProgress\<close>

text \<open>
  The counters are sums of set sizes. They are doubles in the program and natural
  numbers here: a sum of sizes is exact as long as it is below \<open>2\<^sup>5\<^sup>3\<close>, and a
  set holds each of its cards once, so a count of \<open>2\<^sup>5\<^sup>3\<close> takes as many entries
  of sets.
\<close>

record 'c HistoryEntry =
  hcard :: 'c
  difficulty :: AnswerDifficulty

record Progress =
  totalCards :: nat
  masteredCards :: nat
  masteryPercentage :: double

text \<open>One step of the loop (lines 84 to 89) on the pair of the two counters.\<close>

definition countStep :: "'c store \<Rightarrow> int \<times> setref \<Rightarrow> nat \<times> nat \<Rightarrow> nat \<times> nat" where
  "countStep h = (\<lambda>(bucket, cards) (total, mastered).
     (total + setSize (h ! cards),
      if bucket \<ge> 3 then mastered + setSize (h ! cards) else mastered))"

definition computeProgress ::
  "'c store \<Rightarrow> BucketMap \<Rightarrow> 'c HistoryEntry list \<Rightarrow> Progress" where
  "computeProgress h buckets history =
     (let (total, mastered) = fold (countStep h) buckets (0, 0);
          percentage =
            (if total > 0 then jsMul (jsDiv (of_nat mastered) (of_nat total)) 100 else 0)
      in \<lparr>totalCards = total, masteredCards = mastered,
          masteryPercentage = parseFloat2 (toFixed2 percentage)\<rparr>)"

section \<open>Rounding to a double\<close>

text \<open>
  \<open>toDouble\<close> is a rounding to 53 significant bits: \<open>floorLog2\<close> finds the binade of a
  positive rational, and the result is within half a unit of the last place, a
  relative error of at most \<open>2\<^sup>-\<^sup>5\<^sup>3\<close>. An integer below \<open>2\<^sup>5\<^sup>3\<close> in absolute value is
  a double, and the double nearest to an integer is an integer.
\<close>

lemma powi_bitlen:
  assumes "0 < (a :: int)"
  shows "(2 :: rat) powi (bitlen a - 1) \<le> of_int a \<and> of_int a < (2 :: rat) powi (bitlen a)"
proof -
  from bitlen_bounds[OF assms]
  have 1: "2 ^ nat (bitlen a - 1) \<le> a" and 2: "a < 2 ^ nat (bitlen a)" by simp_all
  from assms bitlen_eq_zero_iff[of a] bitlen_nonneg[of a] have ge: "1 \<le> bitlen a" by linarith
  have "(2 :: rat) powi (bitlen a - 1) = of_int (2 ^ nat (bitlen a - 1))"
    using ge by (simp add: power_int_def)
  also have "\<dots> \<le> of_int a" using 1 by (simp only: of_int_le_iff)
  finally have lo: "(2 :: rat) powi (bitlen a - 1) \<le> of_int a" .
  have "(of_int a :: rat) < of_int (2 ^ nat (bitlen a))" using 2 by (simp only: of_int_less_iff)
  also have "\<dots> = (2 :: rat) powi (bitlen a)" using ge by (simp add: power_int_def)
  finally show ?thesis using lo by simp
qed

lemma floorLog2_bounds:
  assumes "0 < q"
  shows "2 powi floorLog2 q \<le> q \<and> q < 2 powi (floorLog2 q + 1)"
proof -
  obtain a b where ab: "quotient_of q = (a, b)" by (cases "quotient_of q")
  from quotient_of_denom_pos[OF ab] have b: "0 < b" .
  from quotient_of_div[OF ab] have q: "q = of_int a / of_int b" .
  from assms b q have a: "0 < a" by (simp add: zero_less_divide_iff)
  define k where "k = bitlen a - bitlen b"
  note A = powi_bitlen[OF a] and B = powi_bitlen[OF b]
  have "(2 :: rat) powi (bitlen a - 1) / 2 powi bitlen b < of_int a / of_int b"
    using A B b by (intro frac_less2) simp_all
  moreover have "(2 :: rat) powi (bitlen a - 1) / 2 powi bitlen b = 2 powi (k - 1)"
    by (simp add: k_def power_int_diff)
  ultimately have lo: "2 powi (k - 1) < q" by (simp add: q)
  have "of_int a / of_int b < (2 :: rat) powi bitlen a / 2 powi (bitlen b - 1)"
    using A B a by (intro frac_less) simp_all
  moreover have "(2 :: rat) powi bitlen a / 2 powi (bitlen b - 1) = 2 powi (k + 1)"
  proof -
    have "(2 :: rat) powi (bitlen a - (bitlen b - 1)) = 2 powi bitlen a / 2 powi (bitlen b - 1)"
      by (rule power_int_diff) simp
    moreover have "bitlen a - (bitlen b - 1) = k + 1" by (simp add: k_def)
    ultimately show ?thesis by (simp only:)
  qed
  ultimately have hi: "q < 2 powi (k + 1)" by (simp add: q)
  have f: "floorLog2 q = (if 2 powi k \<le> q then k else k - 1)"
    by (simp add: floorLog2_def ab k_def)
  show ?thesis
  proof (cases "2 powi k \<le> q")
    case True
    with f hi show ?thesis by simp
  next
    case False
    with f lo show ?thesis by simp
  qed
qed

lemma roundTiesToEven_error: "\<bar>of_int (roundTiesToEven x) - x\<bar> \<le> 1 / 2"
proof -
  have "of_int \<lfloor>x\<rfloor> \<le> x" "x < of_int \<lfloor>x\<rfloor> + 1" by linarith+
  then show ?thesis
    by (auto simp: roundTiesToEven_def Let_def)
qed

lemma toDouble_error:
  assumes "0 < q"
  shows "\<bar>toDouble q - q\<bar> \<le> q / 2 ^ 53 \<and> 0 < toDouble q"
proof -
  define e where "e = floorLog2 q - 52"
  define P :: rat where "P = 2 powi e"
  have P: "0 < P" by (simp add: P_def)
  from floorLog2_bounds[OF assms] have "2 powi floorLog2 q \<le> q" by simp
  moreover have "(2 :: rat) powi floorLog2 q = P * 2 ^ 52"
    by (simp add: P_def e_def power_int_diff)
  ultimately have Pq: "P * 2 ^ 52 \<le> q" by simp
  define r where "r = roundTiesToEven (q / P)"
  have td: "toDouble q = of_int r * P"
    using assms by (simp add: toDouble_def Let_def e_def P_def r_def)
  from roundTiesToEven_error[of "q / P"] have "\<bar>of_int r - q / P\<bar> \<le> 1 / 2" by (simp add: r_def)
  then have "\<bar>of_int r - q / P\<bar> * P \<le> 1 / 2 * P" using P by (intro mult_right_mono) simp_all
  moreover have "\<bar>of_int r - q / P\<bar> * P = \<bar>of_int r * P - q\<bar>"
  proof -
    from P have "\<bar>of_int r - q / P\<bar> * P = \<bar>(of_int r - q / P) * P\<bar>"
      by (simp add: abs_mult)
    moreover from P have "(of_int r - q / P) * P = of_int r * P - q"
      by (simp add: left_diff_distrib)
    ultimately show ?thesis by (simp only:)
  qed
  ultimately have err: "\<bar>toDouble q - q\<bar> \<le> P / 2" by (simp add: td)
  from Pq have "P / 2 \<le> q / 2 ^ 53" by simp
  with err have 1: "\<bar>toDouble q - q\<bar> \<le> q / 2 ^ 53" by simp
  have "q / 2 ^ 53 < q" using assms by simp
  with 1 have "0 < toDouble q" by linarith
  with 1 show ?thesis by simp
qed

lemma roundTiesToEven_of_int: "roundTiesToEven (of_int z) = z"
  by (simp add: roundTiesToEven_def)

lemma toDouble_small_int:
  assumes "\<bar>n\<bar> < 2 ^ 53"
  shows "toDouble (of_int n) = of_int n"
proof (cases "n = 0")
  case True
  then show ?thesis by (simp add: toDouble_def)
next
  case False
  define q :: rat where "q = \<bar>of_int n\<bar>"
  from False have q0: "0 < q" by (simp add: q_def)
  have qn: "q = of_int \<bar>n\<bar>" by (simp add: q_def)
  from assms have "(of_int \<bar>n\<bar> :: rat) < of_int (2 ^ 53)" by (simp only: of_int_less_iff)
  then have q53: "q < 2 powi 53" by (simp add: qn)
  from floorLog2_bounds[OF q0] q53 have "(2 :: rat) powi floorLog2 q < 2 powi 53" by linarith
  have L: "floorLog2 q < 53"
  proof (rule ccontr)
    assume "\<not> floorLog2 q < 53"
    then have "(2 :: rat) powi 53 \<le> 2 powi floorLog2 q"
      by (intro power_int_increasing) simp_all
    with \<open>(2 :: rat) powi floorLog2 q < 2 powi 53\<close> show False by simp
  qed
  define j where "j = nat (52 - floorLog2 q)"
  from L have j: "floorLog2 q - 52 = - int j" by (simp add: j_def)
  have p: "(2 :: rat) powi (- int j) = 1 / 2 ^ j" by (simp add: power_int_minus field_simps)
  have "q / 2 powi (- int j) = of_int (\<bar>n\<bar> * 2 ^ j)" by (simp add: p qn)
  then have r: "roundTiesToEven (q / 2 powi (- int j)) = \<bar>n\<bar> * 2 ^ j"
    by (simp only: roundTiesToEven_of_int)
  have "toDouble (of_int n) = sgn (of_int n) * of_int (\<bar>n\<bar> * 2 ^ j) * 2 powi (- int j)"
    using False by (simp add: toDouble_def Let_def q_def[symmetric] j r)
  also have "\<dots> = sgn (of_int n) * of_int \<bar>n\<bar>" by (simp add: p)
  also have "\<dots> = of_int n" by (simp add: sgn_if)
  finally show ?thesis .
qed

lemma toDouble_of_int: "\<exists>z. toDouble (of_int n) = of_int z"
proof (cases "\<bar>n\<bar> < 2 ^ 53")
  case True
  then show ?thesis using toDouble_small_int by blast
next
  case False
  then have n0: "n \<noteq> 0" by auto
  define q :: rat where "q = \<bar>of_int n\<bar>"
  from n0 have q0: "0 < q" by (simp add: q_def)
  from False have "(2 :: int) ^ 53 \<le> \<bar>n\<bar>" by simp
  then have "(of_int (2 ^ 53) :: rat) \<le> of_int \<bar>n\<bar>" by (simp only: of_int_le_iff)
  then have "(2 :: rat) powi 53 \<le> q" by (simp add: q_def)
  with floorLog2_bounds[OF q0] have "(2 :: rat) powi 53 < 2 powi (floorLog2 q + 1)" by linarith
  have L: "52 \<le> floorLog2 q"
  proof (rule ccontr)
    assume "\<not> 52 \<le> floorLog2 q"
    then have "(2 :: rat) powi (floorLog2 q + 1) \<le> 2 powi 53"
      by (intro power_int_increasing) simp_all
    with \<open>(2 :: rat) powi 53 < 2 powi (floorLog2 q + 1)\<close> show False by simp
  qed
  define j where "j = nat (floorLog2 q - 52)"
  from L have j: "floorLog2 q - 52 = int j" by (simp add: j_def)
  define r where "r = roundTiesToEven (q / 2 powi int j)"
  have "toDouble (of_int n) = sgn (of_int n) * of_int r * 2 powi int j"
    using n0 by (simp add: toDouble_def Let_def q_def[symmetric] j r_def)
  also have "\<dots> = of_int (sgn n * r * 2 ^ j)" by (simp add: sgn_if)
  finally show ?thesis by blast
qed

lemma plusOne_double: "of_int (plusOne k) = jsAdd (of_int k) 1"
proof -
  obtain z where "toDouble (of_int (k + 1)) = of_int z" using toDouble_of_int by blast
  then show ?thesis by (simp add: plusOne_def jsAdd_def)
qed

lemma plusOne_at_bounds:
  "plusOne 9007199254740991 = 9007199254740992 \<and>
   plusOne (- 9007199254740993) = - 9007199254740992 \<and>
   plusOne 9007199254740992 = 9007199254740992"
  by code_simp

lemma plusOne_exact:
  assumes "\<bar>k + 1\<bar> \<le> 2 ^ 53"
  shows "plusOne k = k + 1"
proof -
  consider "\<bar>k + 1\<bar> < 2 ^ 53" | "k = 9007199254740991" | "k = - 9007199254740993"
    using assms by fastforce
  then show ?thesis
  proof cases
    case 1
    from toDouble_small_int[OF 1] show ?thesis by (simp add: plusOne_def jsAdd_def)
  next
    case 2
    with plusOne_at_bounds show ?thesis by simp
  next
    case 3
    with plusOne_at_bounds show ?thesis by simp
  qed
qed

lemma newBucketOf_simps:
  "newBucketOf k Wrong = 0" "newBucketOf k Hard = k" "newBucketOf k Easy = plusOne k"
  by (simp_all add: newBucketOf_def)

lemma plusOne_small: "plusOne 0 = 1" "plusOne 1 = 2" "plusOne 2 = 3"
  by (simp_all add: plusOne_exact)

section \<open>Properties of update\<close>

subsection \<open>The steps of update\<close>

lemma mapSet_fresh: "\<not> mapHas m k \<Longrightarrow> mapSet m k v = m @ [(k, v)]"
  by (induction m) (auto simp: mapHas_def)

lemma findAndDelete_None:
  "findAndDelete h m c = (None, h') \<Longrightarrow> h' = h \<and> (\<forall>(b, s) \<in> set m. c \<notin> set (h ! s))"
  by (induction m) (auto simp: setHas_def split: if_splits)

lemma findAndDelete_Some:
  "findAndDelete h m c = (Some b, h') \<Longrightarrow>
     \<exists>s. (b, s) \<in> set m \<and> c \<in> set (h ! s) \<and> h' = h[s := removeAll c (h ! s)]"
  by (induction m) (auto simp: setHas_def setDelete_def split: if_splits)

lemma update_eq:
  "findAndDelete h m c = (found, h1) \<Longrightarrow>
   update h m c d =
     (let nb = newBucketOf (case found of None \<Rightarrow> 0 | Some b \<Rightarrow> b) d in
      case mapGet m nb of
        Some t \<Rightarrow> (h1[t := setAdd (h1 ! t) c], m)
      | None \<Rightarrow> (h1 @ [[c]], m @ [(nb, length h1)]))"
  by (auto simp: update_def Let_def newSet_def mapSet_fresh mapHas_def mapGet_def
                 setAdd_def map_add_def split: option.splits)

lemma update_shape:
  assumes "update h m c d = (h', m')"
  shows "\<exists>k h1. ((k = 0 \<and> h1 = h \<and> (\<forall>(b, s) \<in> set m. c \<notin> set (h ! s))) \<or>
                 (\<exists>s. (k, s) \<in> set m \<and> c \<in> set (h ! s) \<and> h1 = h[s := removeAll c (h ! s)])) \<and>
          ((\<exists>t. mapGet m (newBucketOf k d) = Some t \<and> m' = m \<and> h' = h1[t := setAdd (h1 ! t) c]) \<or>
           (mapGet m (newBucketOf k d) = None \<and> m' = m @ [(newBucketOf k d, length h1)] \<and> h' = h1 @ [[c]]))"
proof (cases "findAndDelete h m c")
  case (Pair found h1)
  define k where "k = (case found of None \<Rightarrow> 0 | Some b \<Rightarrow> b)"
  have 1: "(k = 0 \<and> h1 = h \<and> (\<forall>(b, s) \<in> set m. c \<notin> set (h ! s))) \<or>
        (\<exists>s. (k, s) \<in> set m \<and> c \<in> set (h ! s) \<and> h1 = h[s := removeAll c (h ! s)])"
  proof (cases found)
    case None
    with Pair findAndDelete_None[of h m c h1] show ?thesis by (simp add: k_def)
  next
    case (Some b)
    with Pair findAndDelete_Some[of h m c b h1] show ?thesis by (simp add: k_def)
  qed
  from assms update_eq[OF Pair, of d]
  have 2: "(\<exists>t. mapGet m (newBucketOf k d) = Some t \<and> m' = m \<and> h' = h1[t := setAdd (h1 ! t) c]) \<or>
           (mapGet m (newBucketOf k d) = None \<and> m' = m @ [(newBucketOf k d, length h1)] \<and> h' = h1 @ [[c]])"
    by (auto simp: k_def Let_def split: option.splits)
  from 1 2 show ?thesis by blast
qed


lemma wf_get: "wfBuckets h m \<Longrightarrow> mapGet m i = Some s \<longleftrightarrow> (i, s) \<in> set m"
  by (simp add: wfBuckets_def mapGet_def)

lemma wf_valid:
  assumes "wfBuckets h m" and "(i, s) \<in> set m"
  shows "s < length h"
proof -
  from assms(2) have "s \<in> set (map snd m)" by force
  moreover from assms(1) have "\<forall>s \<in> set (map snd m). s < length h"
    unfolding wfBuckets_def by blast
  ultimately show ?thesis by blast
qed

lemma own_unshared:
  assumes "ownSets m" and "(i, s) \<in> set m" and "(j, s) \<in> set m"
  shows "i = j"
proof -
  from assms(1) have "inj_on snd (set m)" by (simp add: ownSets_def distinct_map)
  from inj_onD[OF this _ assms(2,3)] show ?thesis by simp
qed

lemma wf_key:
  assumes "wfBuckets h m" and "(i, s) \<in> set m" and "(i, t) \<in> set m"
  shows "s = t"
proof -
  from assms(1) have "inj_on fst (set m)" by (simp add: wfBuckets_def distinct_map)
  from inj_onD[OF this _ assms(2,3)] show ?thesis by simp
qed

lemma mapGet_append:
  "mapGet (m @ [(k, v)]) i =
     (case mapGet m i of Some u \<Rightarrow> Some u | None \<Rightarrow> if i = k then Some v else None)"
  by (simp add: mapGet_def map_add_def split: option.splits)

lemma inv_unique:
  "atMostOneBucket h m \<Longrightarrow> (i, s) \<in> set m \<Longrightarrow> (j, t) \<in> set m \<Longrightarrow>
   c \<in> set (h ! s) \<Longrightarrow> c \<in> set (h ! t) \<Longrightarrow> i = j"
  unfolding atMostOneBucket_def by blast

lemma bucketCards_iff:
  assumes "wfBuckets h m"
  shows "x \<in> bucketCards h m i \<longleftrightarrow> (\<exists>s. (i, s) \<in> set m \<and> x \<in> set (h ! s))"
proof (cases "mapGet m i")
  case None
  with assms have "\<And>s. (i, s) \<notin> set m" by (simp add: wf_get[symmetric])
  with None show ?thesis by (simp add: bucketCards_def)
next
  case (Some u)
  with assms have "\<And>s. (i, s) \<in> set m \<longleftrightarrow> s = u" by (auto simp: wf_get[symmetric])
  with Some show ?thesis by (simp add: bucketCards_def)
qed

lemma set_nth_update:
  "u < length h \<Longrightarrow> set (h[t := ys] ! u) = (if t = u then set ys else set (h ! u))"
  by (cases "t = u") auto

lemma update_frame:
  assumes wf: "wfBuckets h m" and upd: "update h m c d = (h', m')" and ne: "x \<noteq> c"
  shows "x \<in> bucketCards h' m' i \<longleftrightarrow> x \<in> bucketCards h m i"
proof -
  from update_shape[OF upd] obtain k h1 where
    1: "(k = 0 \<and> h1 = h \<and> (\<forall>(b, s) \<in> set m. c \<notin> set (h ! s))) \<or>
        (\<exists>s. (k, s) \<in> set m \<and> c \<in> set (h ! s) \<and> h1 = h[s := removeAll c (h ! s)])" and
    2: "(\<exists>t. mapGet m (newBucketOf k d) = Some t \<and> m' = m \<and> h' = h1[t := setAdd (h1 ! t) c]) \<or>
        (mapGet m (newBucketOf k d) = None \<and> m' = m @ [(newBucketOf k d, length h1)] \<and> h' = h1 @ [[c]])"
    by blast
  from 1 have len: "length h1 = length h" by auto
  have h1: "x \<in> set (h1 ! u) \<longleftrightarrow> x \<in> set (h ! u)" if "u < length h" for u
    using 1 that ne by (auto simp: set_nth_update split: if_splits)
  from 2 show ?thesis
  proof
    assume "\<exists>t. mapGet m (newBucketOf k d) = Some t \<and> m' = m \<and> h' = h1[t := setAdd (h1 ! t) c]"
    then obtain t where t: "mapGet m (newBucketOf k d) = Some t" "m' = m" "h' = h1[t := setAdd (h1 ! t) c]"
      by blast
    show ?thesis
    proof (cases "mapGet m i")
      case None
      then show ?thesis by (simp add: bucketCards_def t)
    next
      case (Some u)
      with wf have "u < length h" by (simp add: wf_get wf_valid)
      with Some h1[of u] ne show ?thesis
        by (auto simp: bucketCards_def t set_nth_update len setAdd_def)
    qed
  next
    assume a: "mapGet m (newBucketOf k d) = None \<and> m' = m @ [(newBucketOf k d, length h1)] \<and> h' = h1 @ [[c]]"
    show ?thesis
    proof (cases "mapGet m i")
      case None
      with a ne show ?thesis by (auto simp: bucketCards_def mapGet_append)
    next
      case (Some u)
      with wf have "u < length h" by (simp add: wf_get wf_valid)
      with Some h1[of u] a show ?thesis
        by (auto simp: bucketCards_def mapGet_append nth_append len)
    qed
  qed
qed


lemma atMostOneBucket_iff:
  assumes "wfBuckets h m"
  shows "atMostOneBucket h m \<longleftrightarrow>
         (\<forall>x i j. x \<in> bucketCards h m i \<longrightarrow> x \<in> bucketCards h m j \<longrightarrow> i = j)"
  unfolding atMostOneBucket_def bucketCards_iff[OF assms] by fast

lemma update_wf:
  assumes wf: "wfBuckets h m" and upd: "update h m c d = (h', m')"
  shows "wfBuckets h' m' \<and> (ownSets m \<longrightarrow> ownSets m')"
proof -
  from update_shape[OF upd] obtain k h1 where
    1: "(k = 0 \<and> h1 = h \<and> (\<forall>(b, s) \<in> set m. c \<notin> set (h ! s))) \<or>
        (\<exists>s. (k, s) \<in> set m \<and> c \<in> set (h ! s) \<and> h1 = h[s := removeAll c (h ! s)])" and
    2: "(\<exists>t. mapGet m (newBucketOf k d) = Some t \<and> m' = m \<and> h' = h1[t := setAdd (h1 ! t) c]) \<or>
        (mapGet m (newBucketOf k d) = None \<and> m' = m @ [(newBucketOf k d, length h1)] \<and> h' = h1 @ [[c]])"
    by blast
  from 1 have len: "length h1 = length h" by auto
  from wf have d: "distinct (map fst m)" and v: "\<forall>s \<in> set (map snd m). s < length h"
    by (simp_all add: wfBuckets_def)
  from 2 show ?thesis
  proof
    assume "\<exists>t. mapGet m (newBucketOf k d) = Some t \<and> m' = m \<and> h' = h1[t := setAdd (h1 ! t) c]"
    with wf len show ?thesis by (auto simp: wfBuckets_def)
  next
    assume a: "mapGet m (newBucketOf k d) = None \<and> m' = m @ [(newBucketOf k d, length h1)] \<and> h' = h1 @ [[c]]"
    then have "newBucketOf k d \<notin> fst ` set m"
      by (simp add: mapGet_def map_of_eq_None_iff)
    with d have d': "distinct (map fst m')" using a by simp
    from v have fresh: "length h \<notin> snd ` set m" by auto
    from v a len have v': "\<forall>s \<in> set (map snd m'). s < length h'" by auto
    from fresh a len have "ownSets m \<longrightarrow> ownSets m'" by (simp add: ownSets_def)
    with d' v' show ?thesis by (simp add: wfBuckets_def)
  qed
qed

lemma update_place:
  assumes wf: "wfBuckets h m" and inv: "atMostOneBucket h m"
    and upd: "update h m c d = (h', m')"
  shows "\<exists>k. ((\<forall>i. c \<notin> bucketCards h m i) \<and> k = 0 \<or> c \<in> bucketCards h m k) \<and>
             c \<in> bucketCards h' m' (newBucketOf k d) \<and>
             (c \<in> bucketCards h m k \<longrightarrow> newBucketOf k d \<noteq> k \<longrightarrow> c \<notin> bucketCards h' m' k) \<and>
             (ownSets m \<longrightarrow> (\<forall>i. c \<in> bucketCards h' m' i \<longleftrightarrow> i = newBucketOf k d))"
proof -
  from update_shape[OF upd] obtain k h1 where
    1: "(k = 0 \<and> h1 = h \<and> (\<forall>(b, s) \<in> set m. c \<notin> set (h ! s))) \<or>
        (\<exists>s. (k, s) \<in> set m \<and> c \<in> set (h ! s) \<and> h1 = h[s := removeAll c (h ! s)])" and
    2: "(\<exists>t. mapGet m (newBucketOf k d) = Some t \<and> m' = m \<and> h' = h1[t := setAdd (h1 ! t) c]) \<or>
        (mapGet m (newBucketOf k d) = None \<and> m' = m @ [(newBucketOf k d, length h1)] \<and> h' = h1 @ [[c]])"
    by blast
  from 1 have len: "length h1 = length h" by auto
  have k: "(\<forall>i. c \<notin> bucketCards h m i) \<and> k = 0 \<or> c \<in> bucketCards h m k"
    using 1 by (auto simp: bucketCards_iff[OF wf])
  have gone: "c \<notin> set (h1 ! u)" if "(i, u) \<in> set m" for i u
  proof -
    from wf that have u: "u < length h" by (rule wf_valid)
    from 1 show ?thesis
    proof
      assume "k = 0 \<and> h1 = h \<and> (\<forall>(b, s) \<in> set m. c \<notin> set (h ! s))"
      with that show ?thesis by auto
    next
      assume "\<exists>s. (k, s) \<in> set m \<and> c \<in> set (h ! s) \<and> h1 = h[s := removeAll c (h ! s)]"
      then obtain s where s: "(k, s) \<in> set m" "c \<in> set (h ! s)" "h1 = h[s := removeAll c (h ! s)]"
        by blast
      show ?thesis
      proof (cases "u = s")
        case True
        with u s show ?thesis by simp
      next
        case False
        with wf s(1) that have "i \<noteq> k" by (auto dest: wf_key)
        with inv s(1,2) that have "c \<notin> set (h ! u)" by (auto dest: inv_unique)
        with False u s(3) show ?thesis by simp
      qed
    qed
  qed
  from 2 show ?thesis
  proof
    assume "\<exists>t. mapGet m (newBucketOf k d) = Some t \<and> m' = m \<and> h' = h1[t := setAdd (h1 ! t) c]"
    then obtain t where t: "mapGet m (newBucketOf k d) = Some t" "m' = m"
      "h' = h1[t := setAdd (h1 ! t) c]"
      by blast
    from wf t(1) have tm: "(newBucketOf k d, t) \<in> set m" by (simp add: wf_get)
    have mem: "c \<in> bucketCards h' m' i \<longleftrightarrow> mapGet m i = Some t" for i
    proof (cases "mapGet m i")
      case None
      then show ?thesis by (simp add: bucketCards_def t)
    next
      case (Some u)
      with wf have um: "(i, u) \<in> set m" by (simp add: wf_get)
      with wf have "u < length h" by (rule wf_valid)
      then show ?thesis using Some gone[OF um]
        by (auto simp: bucketCards_def t set_nth_update len setAdd_def)
    qed
    have a: "c \<in> bucketCards h' m' (newBucketOf k d)" by (simp add: mem t(1))
    have b: "c \<notin> bucketCards h' m' k" if ck: "c \<in> bucketCards h m k" and ne: "newBucketOf k d \<noteq> k"
    proof
      assume "c \<in> bucketCards h' m' k"
      then have "mapGet m k = Some t" by (simp add: mem)
      with wf have kt: "(k, t) \<in> set m" by (simp add: wf_get)
      from ck obtain s where s: "(k, s) \<in> set m" "c \<in> set (h ! s)"
        unfolding bucketCards_iff[OF wf] by blast
      with wf kt have "s = t" by (auto dest: wf_key)
      with inv s tm have "k = newBucketOf k d" by (auto dest: inv_unique)
      with ne show False by simp
    qed
    have c: "\<forall>i. c \<in> bucketCards h' m' i \<longleftrightarrow> i = newBucketOf k d" if own: "ownSets m"
    proof
      fix i
      show "c \<in> bucketCards h' m' i \<longleftrightarrow> i = newBucketOf k d"
      proof
        assume "c \<in> bucketCards h' m' i"
        then have "mapGet m i = Some t" by (simp add: mem)
        with wf have "(i, t) \<in> set m" by (simp add: wf_get)
        then show "i = newBucketOf k d" using tm by (rule own_unshared[OF own])
      next
        assume "i = newBucketOf k d"
        with a show "c \<in> bucketCards h' m' i" by simp
      qed
    qed
    from k a b c show ?thesis by - (rule exI[of _ k], blast)
  next
    assume a: "mapGet m (newBucketOf k d) = None \<and> m' = m @ [(newBucketOf k d, length h1)] \<and> h' = h1 @ [[c]]"
    have mem: "c \<in> bucketCards h' m' i \<longleftrightarrow> i = newBucketOf k d" for i
    proof (cases "mapGet m i")
      case None
      with a show ?thesis by (auto simp: bucketCards_def mapGet_append)
    next
      case (Some u)
      with wf have um: "(i, u) \<in> set m" by (simp add: wf_get)
      with wf have "u < length h" by (rule wf_valid)
      moreover from Some a have "i \<noteq> newBucketOf k d" by auto
      ultimately show ?thesis using Some gone[OF um] a
        by (auto simp: bucketCards_def mapGet_append nth_append len)
    qed
    have "c \<in> bucketCards h' m' (newBucketOf k d)" by (simp add: mem)
    moreover have "c \<in> bucketCards h m k \<longrightarrow> newBucketOf k d \<noteq> k \<longrightarrow> c \<notin> bucketCards h' m' k"
      by (simp add: mem)
    moreover have "\<forall>i. c \<in> bucketCards h' m' i \<longleftrightarrow> i = newBucketOf k d" by (simp add: mem)
    ultimately show ?thesis using k by - (rule exI[of _ k], blast)
  qed
qed



lemma update_Hard_found:
  assumes wf: "wfBuckets h m" and c: "c \<in> bucketCards h m k" and upd: "update h m c Hard = (h', m')"
  shows "m' = m \<and> length h' = length h \<and> (\<forall>u<length h. set (h' ! u) = set (h ! u))"
proof -
  from update_shape[OF upd] obtain k0 h1 where
    1: "(k0 = 0 \<and> h1 = h \<and> (\<forall>(b, s) \<in> set m. c \<notin> set (h ! s))) \<or>
        (\<exists>s. (k0, s) \<in> set m \<and> c \<in> set (h ! s) \<and> h1 = h[s := removeAll c (h ! s)])" and
    2: "(\<exists>t. mapGet m (newBucketOf k0 Hard) = Some t \<and> m' = m \<and> h' = h1[t := setAdd (h1 ! t) c]) \<or>
        (mapGet m (newBucketOf k0 Hard) = None \<and> m' = m @ [(newBucketOf k0 Hard, length h1)] \<and> h' = h1 @ [[c]])"
    by blast
  from c wf have "\<exists>s. (k, s) \<in> set m \<and> c \<in> set (h ! s)" by (simp add: bucketCards_iff)
  with 1 obtain s where s: "(k0, s) \<in> set m" "c \<in> set (h ! s)" "h1 = h[s := removeAll c (h ! s)]"
    by auto
  from wf s(1) have g: "mapGet m k0 = Some s" by (simp add: wf_get)
  from wf s(1) have v: "s < length h" by (rule wf_valid)
  from 2 g s(3) have m': "m' = m" and h': "h' = (h[s := removeAll c (h ! s)])[s := setAdd (h[s := removeAll c (h ! s)] ! s) c]"
    by (simp_all add: newBucketOf_simps)
  from v have "h' = h[s := removeAll c (h ! s) @ [c]]" by (simp add: h' setAdd_def)
  moreover from s(2) have "set (removeAll c (h ! s) @ [c]) = set (h ! s)" by auto
  ultimately have "\<forall>u<length h. set (h' ! u) = set (h ! u)"
    by (simp add: set_nth_update)
  moreover have "length h' = length h" by (simp add: h')
  ultimately show ?thesis using m' by simp
qed

subsection \<open>Where update puts the card\<close>

text \<open>
  Claim C1 says that for every bucket map with the invariant \<open>update\<close> puts the
  card in bucket \<open>f(k, d)\<close>, with \<open>f(k, Easy) = k + 1\<close>, and that the card has no
  duplicate membership afterwards. It fails on two inputs. A map that holds one
  \<^verbatim>\<open>Set\<close> object under two keys: in \<^verbatim>\<open>const s = new Set(); new Map([[0, s], [1, s]])\<close>
  no card is in any bucket, so the invariant holds; \<open>update\<close> with \<open>Wrong\<close> adds the
  card to the set of bucket \<open>0\<close>, and the card is in bucket \<open>1\<close> as well. And a card
  in bucket \<open>2\<^sup>5\<^sup>3 = 9007199254740992\<close>: \<^verbatim>\<open>currentBucket + 1\<close> is a sum of doubles and
  is \<open>2\<^sup>5\<^sup>3\<close> again, so after \<open>Easy\<close> the card is back in bucket \<open>2\<^sup>5\<^sup>3\<close>, and there is
  no bucket \<open>2\<^sup>5\<^sup>3 + 1\<close>.
\<close>

theorem shared_set_or_large_bucket:
  "wfBuckets [[] :: nat list] [(0, 0), (1, 0)] \<and>
   atMostOneBucket [[] :: nat list] [(0, 0), (1, 0)] \<and>
   update [[]] [(0, 0), (1, 0)] (7 :: nat) Wrong = ([[7]], [(0, 0), (1, 0)]) \<and>
   (7 :: nat) \<in> bucketCards [[7]] [(0, 0), (1, 0)] 0 \<and>
   (7 :: nat) \<in> bucketCards [[7]] [(0, 0), (1, 0)] 1 \<and>
   wfBuckets [[7 :: nat]] [(9007199254740992, 0)] \<and>
   atMostOneBucket [[7 :: nat]] [(9007199254740992, 0)] \<and>
   (7 :: nat) \<in> bucketCards [[7]] [(9007199254740992, 0)] 9007199254740992 \<and>
   update [[7]] [(9007199254740992, 0)] (7 :: nat) Easy = ([[7]], [(9007199254740992, 0)]) \<and>
   (7 :: nat) \<in> bucketCards [[7]] [(9007199254740992, 0)] 9007199254740992 \<and>
   (7 :: nat) \<notin> bucketCards [[7]] [(9007199254740992, 0)] (9007199254740992 + 1)"
  using plusOne_at_bounds
  by (simp add: wfBuckets_def atMostOneBucket_def bucketCards_def mapGet_def update_def
                setHas_def setDelete_def mapHas_def setAdd_def newBucketOf_def)

text \<open>
  Claim C1, amended. For a bucket map in which every flashcard is in at most one
  bucket, a card \<open>c\<close> and a difficulty \<open>d\<close>, \<open>update\<close> puts \<open>c\<close> in bucket
  \<open>newBucketOf k d\<close>, where \<open>k\<close> is the bucket that holds \<open>c\<close>, or \<open>0\<close> when no bucket
  holds it. That bucket is \<open>0\<close> for \<open>Wrong\<close>, \<open>k\<close> for \<open>Hard\<close> and, for \<open>Easy\<close>, the sum
  of the doubles \<open>k\<close> and \<open>1\<close>, which is \<open>k + 1\<close> whenever \<open>\<bar>k + 1\<bar> \<le> 2\<^sup>5\<^sup>3\<close>. The card
  is deleted from the bucket that held it: when the new bucket is another one, the
  card is not in bucket \<open>k\<close> any more. If moreover every bucket has a \<^verbatim>\<open>Set\<close> object
  of its own, the card is afterwards in that one bucket and in no other. On the empty
  map, \<open>Easy\<close> puts the card in bucket \<open>1\<close>.
\<close>

theorem update_places_card:
  assumes "wfBuckets h m" and "atMostOneBucket h m" and "update h m c d = (h', m')"
  shows "(c \<in> bucketCards h m k \<longrightarrow>
            c \<in> bucketCards h' m' (newBucketOf k d) \<and>
            (newBucketOf k d \<noteq> k \<longrightarrow> c \<notin> bucketCards h' m' k) \<and>
            (ownSets m \<longrightarrow> (\<forall>i. c \<in> bucketCards h' m' i \<longleftrightarrow> i = newBucketOf k d))) \<and>
         ((\<forall>i. c \<notin> bucketCards h m i) \<longrightarrow>
            c \<in> bucketCards h' m' (newBucketOf 0 d) \<and>
            (ownSets m \<longrightarrow> (\<forall>i. c \<in> bucketCards h' m' i \<longleftrightarrow> i = newBucketOf 0 d))) \<and>
         newBucketOf k Wrong = 0 \<and> newBucketOf k Hard = k \<and>
         of_int (newBucketOf k Easy) = jsAdd (of_int k) 1 \<and>
         (\<bar>k + 1\<bar> \<le> 9007199254740992 \<longrightarrow> newBucketOf k Easy = k + 1) \<and>
         (\<forall>i. c \<in> bucketCards (fst (update [] [] c Easy)) (snd (update [] [] c Easy)) i \<longleftrightarrow> i = 1)"
proof -
  from update_place[OF assms] obtain k0 where
    k0: "(\<forall>i. c \<notin> bucketCards h m i) \<and> k0 = 0 \<or> c \<in> bucketCards h m k0" and
    new: "c \<in> bucketCards h' m' (newBucketOf k0 d)" and
    gone: "c \<in> bucketCards h m k0 \<longrightarrow> newBucketOf k0 d \<noteq> k0 \<longrightarrow> c \<notin> bucketCards h' m' k0" and
    only: "ownSets m \<longrightarrow> (\<forall>i. c \<in> bucketCards h' m' i \<longleftrightarrow> i = newBucketOf k0 d)"
    by blast
  have one: "i = j" if "c \<in> bucketCards h m i" "c \<in> bucketCards h m j" for i j
    using assms(1,2) that by (simp add: atMostOneBucket_iff)
  have a: "c \<in> bucketCards h m k \<longrightarrow>
            c \<in> bucketCards h' m' (newBucketOf k d) \<and>
            (newBucketOf k d \<noteq> k \<longrightarrow> c \<notin> bucketCards h' m' k) \<and>
            (ownSets m \<longrightarrow> (\<forall>i. c \<in> bucketCards h' m' i \<longleftrightarrow> i = newBucketOf k d))"
  proof
    assume ck: "c \<in> bucketCards h m k"
    with k0 have "c \<in> bucketCards h m k0" by blast
    with ck have "k0 = k" by (rule one[symmetric])
    with new gone only ck show "c \<in> bucketCards h' m' (newBucketOf k d) \<and>
            (newBucketOf k d \<noteq> k \<longrightarrow> c \<notin> bucketCards h' m' k) \<and>
            (ownSets m \<longrightarrow> (\<forall>i. c \<in> bucketCards h' m' i \<longleftrightarrow> i = newBucketOf k d))"
      by simp
  qed
  have b: "(\<forall>i. c \<notin> bucketCards h m i) \<longrightarrow>
            c \<in> bucketCards h' m' (newBucketOf 0 d) \<and>
            (ownSets m \<longrightarrow> (\<forall>i. c \<in> bucketCards h' m' i \<longleftrightarrow> i = newBucketOf 0 d))"
  proof
    assume n: "\<forall>i. c \<notin> bucketCards h m i"
    with k0 have "k0 = 0" by blast
    with new only show "c \<in> bucketCards h' m' (newBucketOf 0 d) \<and>
            (ownSets m \<longrightarrow> (\<forall>i. c \<in> bucketCards h' m' i \<longleftrightarrow> i = newBucketOf 0 d))"
      by simp
  qed
  have f: "newBucketOf k Wrong = 0 \<and> newBucketOf k Hard = k \<and>
           of_int (newBucketOf k Easy) = jsAdd (of_int k) 1 \<and>
           (\<bar>k + 1\<bar> \<le> 9007199254740992 \<longrightarrow> newBucketOf k Easy = k + 1)"
    using plusOne_exact[of k] by (simp add: newBucketOf_simps plusOne_double)
  have "update [] [] c Easy = ([[c]], [(1, 0)])"
    by (simp add: update_def mapHas_def mapGet_def newSet_def setAdd_def newBucketOf_simps
                  plusOne_small)
  then have e: "\<forall>i. c \<in> bucketCards (fst (update [] [] c Easy)) (snd (update [] [] c Easy)) i \<longleftrightarrow> i = 1"
    by (simp add: bucketCards_def mapGet_def)
  from a b f e show ?thesis by (intro conjI) blast+
qed

text \<open>A card of bucket \<open>1\<close> answered \<open>Easy\<close> goes to a new bucket \<open>2\<close>.\<close>

theorem update_places_card_witness:
  "wfBuckets [[7 :: nat]] [(1, 0)] \<and> atMostOneBucket [[7 :: nat]] [(1, 0)] \<and>
   update [[7]] [(1, 0)] (7 :: nat) Easy = ([[], [7]], [(1, 0), (2, 1)]) \<and>
   (7 :: nat) \<in> bucketCards [[7]] [(1, 0)] 1 \<and> ownSets [(1, 0)] \<and>
   \<bar>1 + 1 :: int\<bar> \<le> 9007199254740992 \<and>
   newBucketOf 1 Easy = 1 + 1 \<and> newBucketOf 1 Easy \<noteq> 1 \<and>
   (7 :: nat) \<in> bucketCards [[], [7]] [(1, 0), (2, 1)] (newBucketOf 1 Easy) \<and>
   (7 :: nat) \<notin> bucketCards [[], [7]] [(1, 0), (2, 1)] 1 \<and>
   (\<forall>i. (7 :: nat) \<in> bucketCards [[], [7]] [(1, 0), (2, 1)] i \<longleftrightarrow> i = newBucketOf 1 Easy)"
proof -
  have 1: "wfBuckets [[7 :: nat]] [(1, 0)]" by (simp add: wfBuckets_def)
  have o: "ownSets [(1, 0)]" by (simp add: ownSets_def)
  have 2: "atMostOneBucket [[7 :: nat]] [(1, 0)]" by (simp add: atMostOneBucket_def)
  have 3: "update [[7]] [(1, 0)] (7 :: nat) Easy = ([[], [7]], [(1, 0), (2, 1)])"
    by (simp add: update_def setHas_def setDelete_def mapHas_def mapGet_def newSet_def setAdd_def
                  newBucketOf_simps plusOne_small)
  have 4: "(7 :: nat) \<in> bucketCards [[7]] [(1, 0)] 1" by (simp add: bucketCards_def mapGet_def)
  have 5: "\<bar>1 + 1 :: int\<bar> \<le> 9007199254740992" by simp
  have 6: "newBucketOf 1 Easy \<noteq> 1" by (simp add: newBucketOf_simps plusOne_small)
  from update_places_card[OF 1 2 3, of 1] 1 o 2 3 4 5 6 show ?thesis by blast
qed

subsection \<open>The invariant\<close>

text \<open>
  Claim C2 says that \<open>update\<close> keeps the invariant for every bucket map that has it.
  It does not when two keys hold one \<^verbatim>\<open>Set\<close> object: with the card \<open>7\<close> in bucket \<open>0\<close>
  and the buckets \<open>1\<close> and \<open>2\<close> sharing an empty set, every card is in at most one
  bucket; after \<open>Easy\<close> the card is in bucket \<open>1\<close> and in bucket \<open>2\<close>.
\<close>

theorem shared_set_breaks_invariant:
  "wfBuckets [[7 :: nat], []] [(0, 0), (1, 1), (2, 1)] \<and>
   atMostOneBucket [[7 :: nat], []] [(0, 0), (1, 1), (2, 1)] \<and>
   update [[7], []] [(0, 0), (1, 1), (2, 1)] (7 :: nat) Easy = ([[], [7]], [(0, 0), (1, 1), (2, 1)]) \<and>
   \<not> atMostOneBucket [[], [7 :: nat]] [(0, 0), (1, 1), (2, 1)] \<and>
   (7 :: nat) \<in> bucketCards [[], [7]] [(0, 0), (1, 1), (2, 1)] 1 \<and>
   (7 :: nat) \<in> bucketCards [[], [7]] [(0, 0), (1, 1), (2, 1)] 2"
  by (simp add: wfBuckets_def atMostOneBucket_def bucketCards_def mapGet_def update_def
                setHas_def setDelete_def mapHas_def setAdd_def newBucketOf_simps plusOne_small)

text \<open>
  Claim C2, amended. For a bucket map in which every bucket has a \<^verbatim>\<open>Set\<close> object of its
  own, \<open>update\<close> keeps the invariant of the data model: if every flashcard is in at
  most one bucket before the call, every flashcard is in at most one bucket after it,
  and the practised card is in exactly one. Every bucket of the result has a set of
  its own again.
\<close>

theorem update_preserves_invariant:
  assumes "wfBuckets h m" and "ownSets m" and "atMostOneBucket h m"
    and "update h m c d = (h', m')"
  shows "wfBuckets h' m' \<and> ownSets m' \<and> atMostOneBucket h' m' \<and>
         (\<forall>x i j. x \<in> bucketCards h' m' i \<longrightarrow> x \<in> bucketCards h' m' j \<longrightarrow> i = j) \<and>
         (\<exists>!i. c \<in> bucketCards h' m' i)"
proof -
  from update_wf[OF assms(1,4)] assms(2) have wf': "wfBuckets h' m'" and own': "ownSets m'"
    by simp_all
  from update_place[OF assms(1,3,4)] assms(2) obtain k0 where
    new: "\<forall>i. c \<in> bucketCards h' m' i \<longleftrightarrow> i = newBucketOf k0 d"
    by blast
  have old: "i = j" if "x \<in> bucketCards h m i" "x \<in> bucketCards h m j" for x i j
    using assms(1,3) that by (simp add: atMostOneBucket_iff)
  have one: "i = j" if "x \<in> bucketCards h' m' i" "x \<in> bucketCards h' m' j" for x i j
  proof (cases "x = c")
    case True
    with new that show ?thesis by simp
  next
    case False
    with that update_frame[OF assms(1,4) False] old show ?thesis by blast
  qed
  then have "atMostOneBucket h' m'" unfolding atMostOneBucket_iff[OF wf'] by blast
  moreover from new have "\<exists>!i. c \<in> bucketCards h' m' i" by simp
  ultimately show ?thesis using wf' own' one by blast
qed

text \<open>A card of bucket \<open>1\<close> answered \<open>Wrong\<close> joins the card of bucket \<open>0\<close>.\<close>

theorem update_preserves_invariant_witness:
  "wfBuckets [[7 :: nat], [8]] [(1, 0), (0, 1)] \<and> ownSets [(1, 0), (0, 1)] \<and>
   atMostOneBucket [[7 :: nat], [8]] [(1, 0), (0, 1)] \<and>
   update [[7], [8]] [(1, 0), (0, 1)] (7 :: nat) Wrong = ([[], [8, 7]], [(1, 0), (0, 1)]) \<and>
   atMostOneBucket [[], [8, 7 :: nat]] [(1, 0), (0, 1)] \<and>
   (\<exists>!i. (7 :: nat) \<in> bucketCards [[], [8, 7]] [(1, 0), (0, 1)] i)"
proof -
  have 1: "wfBuckets [[7 :: nat], [8]] [(1, 0), (0, 1)]" by (simp add: wfBuckets_def)
  have o: "ownSets [(1, 0), (0, 1)]" by (simp add: ownSets_def)
  have 2: "atMostOneBucket [[7 :: nat], [8]] [(1, 0), (0, 1)]" by (simp add: atMostOneBucket_def)
  have 3: "update [[7], [8]] [(1, 0), (0, 1)] (7 :: nat) Wrong = ([[], [8, 7]], [(1, 0), (0, 1)])"
    by (simp add: update_def setHas_def setDelete_def mapHas_def mapGet_def newSet_def setAdd_def
                  newBucketOf_simps)
  from update_preserves_invariant[OF 1 o 2 3] 1 o 2 3 show ?thesis by blast
qed

subsection \<open>The other cards\<close>

text \<open>
  Claim C3. \<open>update\<close> changes the bucket of no other flashcard: a card different from
  \<open>c\<close> is in bucket \<open>i\<close> after the call exactly when it was before. In the scenario of
  the spec, the map \<open>{1: {cardA}}\<close> and the answer \<open>Wrong\<close>, \<open>cardA\<close> ends in bucket \<open>0\<close>
  and every other bucket, bucket \<open>1\<close> among them, is empty.
\<close>

theorem update_changes_only_card:
  assumes "wfBuckets h m" and "update h m c d = (h', m')"
  shows "(\<forall>x i. x \<noteq> c \<longrightarrow> (x \<in> bucketCards h' m' i \<longleftrightarrow> x \<in> bucketCards h m i)) \<and>
         bucketCards (fst (update [[cardA]] [(1, 0)] cardA Wrong))
                     (snd (update [[cardA]] [(1, 0)] cardA Wrong)) 0 = {cardA} \<and>
         (\<forall>i. i \<noteq> 0 \<longrightarrow>
            bucketCards (fst (update [[cardA]] [(1, 0)] cardA Wrong))
                        (snd (update [[cardA]] [(1, 0)] cardA Wrong)) i = {})"
proof -
  have "update [[cardA]] [(1, 0)] cardA Wrong = ([[], [cardA]], [(1, 0), (0, 1)])"
    by (simp add: update_def setHas_def setDelete_def mapHas_def mapGet_def newSet_def setAdd_def
                  newBucketOf_simps)
  then show ?thesis
    using update_frame[OF assms] by (simp add: bucketCards_def mapGet_def)
qed

text \<open>The card \<open>8\<close> of bucket \<open>0\<close> stays where it is while \<open>7\<close> moves in.\<close>

theorem update_changes_only_card_witness:
  "wfBuckets [[7 :: nat], [8]] [(1, 0), (0, 1)] \<and>
   update [[7], [8]] [(1, 0), (0, 1)] (7 :: nat) Wrong = ([[], [8, 7]], [(1, 0), (0, 1)]) \<and>
   (8 :: nat) \<noteq> 7 \<and>
   ((8 :: nat) \<in> bucketCards [[], [8, 7]] [(1, 0), (0, 1)] 0 \<longleftrightarrow>
    (8 :: nat) \<in> bucketCards [[7], [8]] [(1, 0), (0, 1)] 0)"
proof -
  have 1: "wfBuckets [[7 :: nat], [8]] [(1, 0), (0, 1)]" by (simp add: wfBuckets_def)
  have 3: "update [[7], [8]] [(1, 0), (0, 1)] (7 :: nat) Wrong = ([[], [8, 7]], [(1, 0), (0, 1)])"
    by (simp add: update_def setHas_def setDelete_def mapHas_def mapGet_def newSet_def setAdd_def
                  newBucketOf_simps)
  have 4: "(8 :: nat) \<noteq> 7" by simp
  from update_changes_only_card[OF 1 3, where cardA = "0 :: nat"] 4
  have "(8 :: nat) \<in> bucketCards [[], [8, 7]] [(1, 0), (0, 1)] 0 \<longleftrightarrow>
        (8 :: nat) \<in> bucketCards [[7], [8]] [(1, 0), (0, 1)] 0"
    by blast
  with 1 3 4 show ?thesis by blast
qed

subsection \<open>Hard leaves the buckets as they are\<close>

text \<open>
  Claim C10. For a card that is in some bucket of the map, \<open>update\<close> with \<open>Hard\<close>
  deletes the card from its set and adds it to the same set again: the map has the
  same entries and every bucket number has the same cards as before (the card moves
  to the end of its set's insertion order). The invariant, which the claim assumes,
  is not needed for this.
\<close>

theorem update_Hard_unchanged:
  assumes "wfBuckets h m" and "c \<in> bucketCards h m k" and "update h m c Hard = (h', m')"
  shows "m' = m \<and> (\<forall>i. bucketCards h' m' i = bucketCards h m i)"
proof -
  from update_Hard_found[OF assms] have m': "m' = m"
    and same: "\<And>u. u < length h \<Longrightarrow> set (h' ! u) = set (h ! u)"
    by simp_all
  have "bucketCards h' m' i = bucketCards h m i" for i
  proof (cases "mapGet m i")
    case None
    then show ?thesis by (simp add: bucketCards_def m')
  next
    case (Some u)
    with assms(1) have "u < length h" by (simp add: wf_get wf_valid)
    with Some same show ?thesis by (simp add: bucketCards_def m')
  qed
  with m' show ?thesis by simp
qed

text \<open>The card \<open>7\<close> of bucket \<open>1\<close>, answered \<open>Hard\<close>.\<close>

theorem update_Hard_unchanged_witness:
  "wfBuckets [[7 :: nat, 8], [9]] [(1, 0), (0, 1)] \<and>
   (7 :: nat) \<in> bucketCards [[7, 8], [9]] [(1, 0), (0, 1)] 1 \<and>
   update [[7, 8], [9]] [(1, 0), (0, 1)] (7 :: nat) Hard = ([[8, 7], [9]], [(1, 0), (0, 1)]) \<and>
   (\<forall>i. bucketCards [[8, 7 :: nat], [9]] [(1, 0), (0, 1)] i = bucketCards [[7, 8], [9]] [(1, 0), (0, 1)] i)"
proof -
  have 1: "wfBuckets [[7 :: nat, 8], [9]] [(1, 0), (0, 1)]" by (simp add: wfBuckets_def)
  have 3: "(7 :: nat) \<in> bucketCards [[7, 8], [9]] [(1, 0), (0, 1)] 1" by (simp add: bucketCards_def mapGet_def)
  have 4: "update [[7, 8], [9]] [(1, 0), (0, 1)] (7 :: nat) Hard = ([[8, 7], [9]], [(1, 0), (0, 1)])"
    by (simp add: update_def setHas_def setDelete_def mapHas_def mapGet_def newSet_def setAdd_def
                  newBucketOf_simps)
  from update_Hard_unchanged[OF 1 3 4] 1 3 4 show ?thesis by blast
qed

section \<open>Properties of computeProgress\<close>

subsection \<open>The counters\<close>

lemma fold_countStep:
  "fold (countStep h) m (t0, m0) =
     (t0 + sum_list (map (\<lambda>(b, s). setSize (h ! s)) m),
      m0 + sum_list (map (\<lambda>(b, s). setSize (h ! s)) (filter (\<lambda>(b, s). 3 \<le> b) m)))"
  by (induction m arbitrary: t0 m0) (auto simp: countStep_def)

lemma mastered_le_total:
  "sum_list (map (\<lambda>(b, s). setSize (h ! s)) (filter (\<lambda>(b, s). 3 \<le> b) m)) \<le>
   sum_list (map (\<lambda>(b :: int, s). setSize (h ! s)) m)"
  by (induction m) auto

subsection \<open>The percentage\<close>

text \<open>
  \<^verbatim>\<open>toFixed(2)\<close> gives a number of hundredths nearest to its argument. The argument is
  the double product \<^verbatim>\<open>(masteredCards / totalCards) * 100\<close>, two roundings away from the
  exact percentage, and \<^verbatim>\<open>parseFloat\<close> is one more rounding.
\<close>

lemma toFixed2_nearest: "\<bar>of_int (toFixed2 x) / 100 - x\<bar> \<le> 1 / 200"
proof (cases "x < 0")
  case True
  define n where "n = \<lfloor>- x * 100 + 1 / 2\<rfloor>"
  have "of_int n \<le> - x * 100 + 1 / 2" "- x * 100 + 1 / 2 < of_int n + 1"
    unfolding n_def by linarith+
  moreover have "of_int (toFixed2 x) = - (of_int n :: rat)"
    using True by (simp add: toFixed2_def n_def)
  ultimately show ?thesis by linarith
next
  case False
  define n where "n = \<lfloor>x * 100 + 1 / 2\<rfloor>"
  have "of_int n \<le> x * 100 + 1 / 2" "x * 100 + 1 / 2 < of_int n + 1"
    unfolding n_def by linarith+
  moreover have "of_int (toFixed2 x) = (of_int n :: rat)"
    using False by (simp add: toFixed2_def n_def)
  ultimately show ?thesis by linarith
qed

lemma product_near:
  fixes m t :: nat
  assumes t: "0 < t" and mt: "m \<le> t"
  shows "0 \<le> jsMul (jsDiv (of_nat m) (of_nat t)) 100 \<and>
         \<bar>jsMul (jsDiv (of_nat m) (of_nat t)) 100 - 100 * of_nat m / of_nat t\<bar>
           \<le> 300 / 9007199254740992"
proof (cases "m = 0")
  case True
  then show ?thesis by (simp add: jsDiv_def jsMul_def toDouble_def)
next
  case False
  define q :: rat where "q = of_nat m / of_nat t"
  from False t have q0: "0 < q" by (simp add: q_def)
  from mt t have q1: "q \<le> 1" by (simp add: q_def)
  have p53: "(2 :: rat) ^ 53 = 9007199254740992" by simp
  define x1 where "x1 = toDouble q"
  from toDouble_error[OF q0] have e1: "\<bar>x1 - q\<bar> \<le> q / 9007199254740992" and p1: "0 < x1"
    by (simp_all add: x1_def)
  from p1 have p1': "0 < x1 * 100" by simp
  define x2 where "x2 = toDouble (x1 * 100)"
  from toDouble_error[OF p1'] have e2: "\<bar>x2 - x1 * 100\<bar> \<le> x1 * 100 / 9007199254740992"
    and p2: "0 < x2"
    by (simp_all add: x2_def)
  from e1 q0 q1 have x1le: "x1 \<le> 2" by linarith
  from e1 e2 x1le q1 q0 have e: "\<bar>x2 - 100 * q\<bar> \<le> 300 / 9007199254740992" by linarith
  have "jsMul (jsDiv (of_nat m) (of_nat t)) 100 = x2"
    by (simp add: x2_def x1_def q_def jsDiv_def jsMul_def)
  moreover have "100 * of_nat m / of_nat t = 100 * q" by (simp add: q_def)
  ultimately show ?thesis using e p2 by simp
qed

lemma hundredths_range:
  fixes m t :: nat
  assumes t: "0 < t" and mt: "m \<le> t"
  shows "toFixed2 (jsMul (jsDiv (of_nat m) (of_nat t)) 100) =
           \<lfloor>jsMul (jsDiv (of_nat m) (of_nat t)) 100 * 100 + 1 / 2\<rfloor> \<and>
         0 \<le> toFixed2 (jsMul (jsDiv (of_nat m) (of_nat t)) 100) \<and>
         toFixed2 (jsMul (jsDiv (of_nat m) (of_nat t)) 100) \<le> 10000"
proof -
  define p where "p = jsMul (jsDiv (of_nat m) (of_nat t)) 100"
  define q :: rat where "q = of_nat m / of_nat t"
  from t have q0: "0 \<le> q" by (simp add: q_def)
  from mt t have q1: "q \<le> 1" by (simp add: q_def)
  from product_near[OF t mt] have p0: "0 \<le> p" and e: "\<bar>p - 100 * q\<bar> \<le> 300 / 9007199254740992"
    by (simp_all add: p_def q_def)
  define n where "n = \<lfloor>p * 100 + 1 / 2\<rfloor>"
  from p0 have f: "toFixed2 p = n" by (simp add: toFixed2_def n_def)
  have fl: "of_int n \<le> p * 100 + 1 / 2" "p * 100 + 1 / 2 < of_int n + 1"
    unfolding n_def by linarith+
  from fl(2) p0 have "(- 1 :: rat) < of_int n" by linarith
  then have "(of_int (- 1) :: rat) < of_int n" by simp
  then have n0: "0 \<le> n" by (simp only: of_int_less_iff)
  from fl(1) e q1 have "(of_int n :: rat) < 10001" by linarith
  then have "(of_int n :: rat) < of_int 10001" by simp
  then have n1: "n \<le> 10000" by (simp only: of_int_less_iff)
  from f n0 n1 show ?thesis by (simp add: p_def n_def)
qed

lemma percentage_near:
  fixes m t :: nat
  assumes t: "0 < t" and mt: "m \<le> t"
  shows "\<bar>of_int (toFixed2 (jsMul (jsDiv (of_nat m) (of_nat t)) 100)) / 100 -
          100 * of_nat m / of_nat t\<bar> \<le> (1 / 200 + 300 / 9007199254740992 :: rat)"
proof -
  from product_near[OF t mt] toFixed2_nearest[of "jsMul (jsDiv (of_nat m) (of_nat t)) 100"]
  show ?thesis by linarith
qed

text \<open>
  For fewer than \<open>2\<^sup>3\<^sup>2\<close> cards the two roundings of the product cannot carry the
  result past a neighbouring hundredth: the exact percentage is a multiple of
  \<open>1 / totalCards\<close> of a hundredth away from every halfway point, or on it.
\<close>

lemma percentage_nearest:
  fixes m t :: nat
  assumes t: "0 < t" and mt: "m \<le> t" and small: "t < 2 ^ 32"
  shows "\<bar>of_int (toFixed2 (jsMul (jsDiv (of_nat m) (of_nat t)) 100)) / 100 -
          100 * of_nat m / of_nat t\<bar> \<le> (1 / 200 :: rat)"
proof -
  define q :: rat where "q = of_nat m / of_nat t"
  define n where "n = toFixed2 (jsMul (jsDiv (of_nat m) (of_nat t)) 100)"
  from percentage_near[OF t mt]
  have near: "\<bar>of_int n / 100 - 100 * q\<bar> \<le> 1 / 200 + 300 / 9007199254740992"
    by (simp add: n_def q_def)
  define D :: int where "D = 2 * int t * n - 20000 * int m"
  have T: "(0 :: rat) < of_nat t" using t by simp
  have D: "(of_int D :: rat) = (of_int n / 100 - 100 * q) * (200 * of_nat t)"
    using t by (simp add: D_def q_def field_simps)
  have "\<bar>(of_int n / 100 - 100 * q) * (200 * of_nat t)\<bar> =
        \<bar>of_int n / 100 - 100 * q\<bar> * (200 * of_nat t)"
    using T by (simp add: abs_mult)
  also have "\<dots> \<le> (1 / 200 + 300 / 9007199254740992) * (200 * of_nat t)"
    using near T by (intro mult_right_mono) simp_all
  finally have "\<bar>of_int D :: rat\<bar> \<le> (1 / 200 + 300 / 9007199254740992) * (200 * of_nat t)"
    by (simp only: D)
  moreover have "(of_nat t :: rat) < of_nat (2 ^ 32)" using small by (simp only: of_nat_less_iff)
  then have "(of_nat t :: rat) < 4294967296" by simp
  moreover have "(1 / 200 + 300 / 9007199254740992) * (200 * of_nat t) =
      (of_nat t :: rat) + (60000 / 9007199254740992) * of_nat t"
    by (simp add: algebra_simps)
  ultimately have "\<bar>of_int D :: rat\<bar> < of_nat t + 1" by linarith
  then have "\<bar>of_int D :: rat\<bar> < of_int (int t + 1)" by simp
  then have "\<bar>D\<bar> < int t + 1" by (simp only: of_int_abs[symmetric] of_int_less_iff)
  then have "\<bar>D\<bar> \<le> int t" by simp
  then have "\<bar>of_int D :: rat\<bar> \<le> of_nat t"
    by (metis of_int_abs of_int_le_iff of_int_of_nat_eq)
  then have "\<bar>of_int n / 100 - 100 * q\<bar> * (200 * of_nat t) \<le> of_nat t"
    using T by (simp add: D abs_mult)
  with T have "\<bar>of_int n / 100 - 100 * q\<bar> \<le> 1 / 200" by (simp add: field_simps)
  then show ?thesis by (simp add: n_def q_def)
qed

lemma parseFloat2_near:
  assumes "0 \<le> n" and "n \<le> 10000"
  shows "\<bar>parseFloat2 n - of_int n / 100\<bar> \<le> 100 / 9007199254740992"
proof (cases "n = 0")
  case True
  then show ?thesis by (simp add: parseFloat2_def toDouble_def)
next
  case False
  with assms(1) have "0 < (of_int n / 100 :: rat)" by simp
  from toDouble_error[OF this]
  have "\<bar>parseFloat2 n - of_int n / 100\<bar> \<le> of_int n / 100 / 9007199254740992"
    by (simp add: parseFloat2_def)
  moreover from assms(2) have "(of_int n :: rat) \<le> of_int 10000" by (simp only: of_int_le_iff)
  then have "(of_int n :: rat) / 100 / 9007199254740992 \<le> 100 / 9007199254740992" by simp
  ultimately show ?thesis by linarith
qed

text \<open>\<^verbatim>\<open>33.33\<close> is the double \<open>2345390243441541 / 2\<^sup>4\<^sup>6\<close>.\<close>

lemma third_percentage:
  "parseFloat2 (toFixed2 (jsMul (jsDiv 1 3) 100)) = 2345390243441541 / 70368744177664"
  by code_simp

text \<open>
  A percentage that is exactly halfway between two hundredths follows the double
  product, which may be just below it or equal to it: \<open>23\<close> of \<open>160\<close> is \<open>14.375\<close>, the
  product is below it and the result is \<open>14.37\<close>; \<open>1\<close> of \<open>32\<close> is \<open>3.125\<close>, the product is
  \<open>3.125\<close> and the result is \<open>3.13\<close>. Both are hundredths nearest to the percentage.
\<close>

lemma halfway_percentages:
  "jsMul (jsDiv 23 160) 100 < 14375 / 1000 \<and>
   parseFloat2 (toFixed2 (jsMul (jsDiv 23 160) 100)) = parseFloat2 1437 \<and>
   jsMul (jsDiv 1 32) 100 = 3125 / 1000 \<and>
   parseFloat2 (toFixed2 (jsMul (jsDiv 1 32) 100)) = parseFloat2 313"
  by code_simp

text \<open>
  Claim C7. \<open>computeProgress\<close> returns as \<open>totalCards\<close> the sum of the sizes of all
  sets of the map, as \<open>masteredCards\<close> the sum of the sizes of the sets of the buckets
  numbered \<open>3\<close> or more, and as \<open>masteryPercentage\<close> the value \<open>0\<close> when there is no
  card. Otherwise \<open>masteryPercentage\<close> is \<^verbatim>\<open>(masteredCards / totalCards) * 100\<close> rounded
  to two decimal places: there is a number \<open>n\<close> of hundredths, from \<open>0\<close> to \<open>10000\<close>, the
  integer nearest to a hundred times the double product (the larger one at a tie),
  and the value returned is the double nearest to \<open>n / 100\<close>. It is at most
  \<open>100 / 2\<^sup>5\<^sup>3\<close> away from \<open>n / 100\<close> and at most \<open>1 / 200 + 400 / 2\<^sup>5\<^sup>3\<close> away from the
  exact percentage \<open>100 * masteredCards / totalCards\<close>; \<open>n / 100\<close> is at most half a
  hundredth (and \<open>300 / 2\<^sup>5\<^sup>3\<close>) away from the exact percentage, and at most half a
  hundredth for fewer than \<open>2\<^sup>3\<^sup>2\<close> cards. The empty map gives \<open>{0, 0, 0}\<close>, and one card
  in each of the buckets \<open>0\<close>, \<open>1\<close> and \<open>3\<close> gives \<open>{3, 1, 33.33}\<close>, where \<^verbatim>\<open>33.33\<close> is the
  double \<open>2345390243441541 / 2\<^sup>4\<^sup>6\<close>, less than \<open>2\<^sup>-\<^sup>4\<^sup>6\<close> away from \<open>3333 / 100\<close>.
\<close>

theorem computeProgress_result:
  "totalCards (computeProgress h m hist) = sum_list (map (\<lambda>(b, s). setSize (h ! s)) m) \<and>
   masteredCards (computeProgress h m hist) =
     sum_list (map (\<lambda>(b, s). setSize (h ! s)) (filter (\<lambda>(b, s). 3 \<le> b) m)) \<and>
   (totalCards (computeProgress h m hist) = 0 \<longrightarrow>
      masteryPercentage (computeProgress h m hist) = 0) \<and>
   (0 < totalCards (computeProgress h m hist) \<longrightarrow>
      \<bar>masteryPercentage (computeProgress h m hist) -
        100 * of_nat (masteredCards (computeProgress h m hist)) /
          of_nat (totalCards (computeProgress h m hist))\<bar>
        \<le> 1 / 200 + 400 / 9007199254740992 \<and>
      (\<exists>n :: int.
         0 \<le> n \<and> n \<le> 10000 \<and>
         n = \<lfloor>jsMul (jsDiv (of_nat (masteredCards (computeProgress h m hist)))
                         (of_nat (totalCards (computeProgress h m hist)))) 100 * 100 + 1 / 2\<rfloor> \<and>
         \<bar>of_int n / 100 -
           100 * of_nat (masteredCards (computeProgress h m hist)) /
             of_nat (totalCards (computeProgress h m hist))\<bar>
           \<le> (1 / 200 + 300 / 9007199254740992 :: rat) \<and>
         (totalCards (computeProgress h m hist) < 4294967296 \<longrightarrow>
            \<bar>of_int n / 100 -
              100 * of_nat (masteredCards (computeProgress h m hist)) /
                of_nat (totalCards (computeProgress h m hist))\<bar> \<le> (1 / 200 :: rat)) \<and>
         masteryPercentage (computeProgress h m hist) = toDouble (of_int n / 100) \<and>
         \<bar>masteryPercentage (computeProgress h m hist) - of_int n / 100\<bar>
           \<le> 100 / 9007199254740992)) \<and>
   computeProgress h [] hist = \<lparr>totalCards = 0, masteredCards = 0, masteryPercentage = 0\<rparr> \<and>
   computeProgress [[c0], [c1], [c3]] [(0, 0), (1, 1), (3, 2)] hist =
     \<lparr>totalCards = 3, masteredCards = 1,
      masteryPercentage = 2345390243441541 / 70368744177664\<rparr> \<and>
   \<bar>2345390243441541 / 70368744177664 - 3333 / 100 :: rat\<bar> \<le> 1 / 70368744177664"
proof -
  define T where "T = totalCards (computeProgress h m hist)"
  define M where "M = masteredCards (computeProgress h m hist)"
  define P where "P = masteryPercentage (computeProgress h m hist)"
  have "\<lfloor>1 / 2 :: rat\<rfloor> = 0" by linarith
  then have z: "parseFloat2 (toFixed2 0) = 0"
    by (simp add: parseFloat2_def toFixed2_def toDouble_def)
  have 1: "T = sum_list (map (\<lambda>(b, s). setSize (h ! s)) m)"
    by (simp add: T_def computeProgress_def fold_countStep)
  have 2: "M = sum_list (map (\<lambda>(b, s). setSize (h ! s)) (filter (\<lambda>(b, s). 3 \<le> b) m))"
    by (simp add: M_def computeProgress_def fold_countStep)
  have 3: "P = (if T = 0 then 0
                else parseFloat2 (toFixed2 (jsMul (jsDiv (of_nat M) (of_nat T)) 100)))"
  proof (cases "fold (countStep h) m (0, 0)")
    case (Pair total mastered)
    then show ?thesis
      by (cases "total = 0") (simp_all add: P_def T_def M_def computeProgress_def z)
  qed
  have le: "M \<le> T" unfolding 1 2 by (rule mastered_le_total)
  have a: "T = 0 \<longrightarrow> P = 0" by (simp add: 3)
  have b: "0 < T \<longrightarrow>
      \<bar>P - 100 * of_nat M / of_nat T\<bar> \<le> 1 / 200 + 400 / 9007199254740992 \<and>
      (\<exists>n :: int.
         0 \<le> n \<and> n \<le> 10000 \<and>
         n = \<lfloor>jsMul (jsDiv (of_nat M) (of_nat T)) 100 * 100 + 1 / 2\<rfloor> \<and>
         \<bar>of_int n / 100 - 100 * of_nat M / of_nat T\<bar> \<le> (1 / 200 + 300 / 9007199254740992 :: rat) \<and>
         (T < 4294967296 \<longrightarrow> \<bar>of_int n / 100 - 100 * of_nat M / of_nat T\<bar> \<le> (1 / 200 :: rat)) \<and>
         P = toDouble (of_int n / 100) \<and>
         \<bar>P - of_int n / 100\<bar> \<le> 100 / 9007199254740992)"
  proof
    assume t: "0 < T"
    define n where "n = toFixed2 (jsMul (jsDiv (of_nat M) (of_nat T)) 100)"
    from t have Pn: "P = parseFloat2 n" by (simp add: 3 n_def)
    from hundredths_range[OF t le]
    have n: "n = \<lfloor>jsMul (jsDiv (of_nat M) (of_nat T)) 100 * 100 + 1 / 2\<rfloor>"
      and n0: "0 \<le> n" and n1: "n \<le> 10000"
      unfolding n_def by blast+
    from percentage_near[OF t le]
    have near: "\<bar>of_int n / 100 - 100 * of_nat M / of_nat T\<bar> \<le> (1 / 200 + 300 / 9007199254740992 :: rat)"
      by (simp add: n_def)
    have nearest: "T < 4294967296 \<longrightarrow> \<bar>of_int n / 100 - 100 * of_nat M / of_nat T\<bar> \<le> (1 / 200 :: rat)"
      using percentage_nearest[OF t le] by (simp add: n_def)
    from parseFloat2_near[OF n0 n1] have pf: "\<bar>P - of_int n / 100\<bar> \<le> 100 / 9007199254740992"
      by (simp add: Pn)
    from near pf have tot: "\<bar>P - 100 * of_nat M / of_nat T\<bar> \<le> 1 / 200 + 400 / 9007199254740992"
      by linarith
    have Pd: "P = toDouble (of_int n / 100)" by (simp add: Pn parseFloat2_def)
    from n n0 n1 near nearest Pd pf
    have "\<exists>n :: int.
         0 \<le> n \<and> n \<le> 10000 \<and>
         n = \<lfloor>jsMul (jsDiv (of_nat M) (of_nat T)) 100 * 100 + 1 / 2\<rfloor> \<and>
         \<bar>of_int n / 100 - 100 * of_nat M / of_nat T\<bar> \<le> (1 / 200 + 300 / 9007199254740992 :: rat) \<and>
         (T < 4294967296 \<longrightarrow> \<bar>of_int n / 100 - 100 * of_nat M / of_nat T\<bar> \<le> (1 / 200 :: rat)) \<and>
         P = toDouble (of_int n / 100) \<and>
         \<bar>P - of_int n / 100\<bar> \<le> 100 / 9007199254740992"
      by (intro exI[of _ n] conjI)
    with tot show "\<bar>P - 100 * of_nat M / of_nat T\<bar> \<le> 1 / 200 + 400 / 9007199254740992 \<and>
      (\<exists>n :: int.
         0 \<le> n \<and> n \<le> 10000 \<and>
         n = \<lfloor>jsMul (jsDiv (of_nat M) (of_nat T)) 100 * 100 + 1 / 2\<rfloor> \<and>
         \<bar>of_int n / 100 - 100 * of_nat M / of_nat T\<bar> \<le> (1 / 200 + 300 / 9007199254740992 :: rat) \<and>
         (T < 4294967296 \<longrightarrow> \<bar>of_int n / 100 - 100 * of_nat M / of_nat T\<bar> \<le> (1 / 200 :: rat)) \<and>
         P = toDouble (of_int n / 100) \<and>
         \<bar>P - of_int n / 100\<bar> \<le> 100 / 9007199254740992)"
      by (rule conjI)
  qed
  have 5: "computeProgress h [] hist = \<lparr>totalCards = 0, masteredCards = 0, masteryPercentage = 0\<rparr>"
    by (simp add: computeProgress_def z)
  have 6: "computeProgress [[c0], [c1], [c3]] [(0, 0), (1, 1), (3, 2)] hist =
     \<lparr>totalCards = 3, masteredCards = 1,
      masteryPercentage = 2345390243441541 / 70368744177664\<rparr>"
    using third_percentage by (simp add: computeProgress_def countStep_def setSize_def)
  have 7: "\<bar>2345390243441541 / 70368744177664 - 3333 / 100 :: rat\<bar> \<le> 1 / 70368744177664"
    by simp
  from 1 2 a b 5 6 7 show ?thesis unfolding T_def M_def P_def by (intro conjI)
qed

text \<open>
  One card in each of the buckets \<open>0\<close>, \<open>1\<close> and \<open>3\<close>: the double \<^verbatim>\<open>33.33\<close> is within
  the bound of \<open>100 / 3\<close>.
\<close>

theorem computeProgress_result_witness:
  "computeProgress [[0 :: nat], [1], [2]] [(0, 0), (1, 1), (3, 2)] [] =
     \<lparr>totalCards = 3, masteredCards = 1,
      masteryPercentage = 2345390243441541 / 70368744177664\<rparr> \<and>
   (0 :: nat) < 3 \<and>
   \<bar>2345390243441541 / 70368744177664 - 100 * of_nat 1 / of_nat 3 :: rat\<bar>
     \<le> 1 / 200 + 400 / 9007199254740992"
proof -
  note r = computeProgress_result[of "[[0 :: nat], [1], [2]]" "[(0, 0), (1, 1), (3, 2)]" "[]" 0 1 2]
  from r have a: "computeProgress [[0 :: nat], [1], [2]] [(0, 0), (1, 1), (3, 2)] [] =
     \<lparr>totalCards = 3, masteredCards = 1,
      masteryPercentage = 2345390243441541 / 70368744177664\<rparr>"
    by (elim conjE)
  have b: "(0 :: nat) < 3" by simp
  from r have "0 < totalCards (computeProgress [[0 :: nat], [1], [2]] [(0, 0), (1, 1), (3, 2)] []) \<longrightarrow>
      \<bar>masteryPercentage (computeProgress [[0 :: nat], [1], [2]] [(0, 0), (1, 1), (3, 2)] []) -
        100 * of_nat (masteredCards (computeProgress [[0 :: nat], [1], [2]] [(0, 0), (1, 1), (3, 2)] [])) /
          of_nat (totalCards (computeProgress [[0 :: nat], [1], [2]] [(0, 0), (1, 1), (3, 2)] []))\<bar>
        \<le> 1 / 200 + 400 / 9007199254740992"
    by blast
  then have d: "\<bar>2345390243441541 / 70368744177664 - 100 * of_nat 1 / of_nat 3 :: rat\<bar>
     \<le> 1 / 200 + 400 / 9007199254740992"
    unfolding a using b by simp
  from a b d show ?thesis by (intro conjI)
qed

text \<open>
  Claim C8. \<open>computeProgress\<close> does not depend on its history argument: two calls on
  the same buckets with any two histories return the same record.
\<close>

theorem computeProgress_ignores_history:
  "computeProgress h m history1 = computeProgress h m history2"
  by (simp add: computeProgress_def)

section \<open>Properties of getBucketRange\<close>

text \<open>
  The state of the loop after the indices below \<open>n\<close>: \<open>minBucket\<close> is the least index
  with a card and \<open>maxBucket\<close> the greatest, and both are \<^verbatim>\<open>undefined\<close> when there is
  none.
\<close>

lemma rangeLoop:
  "case fold (rangeStep h bs) [0..<n] (None, None) of (mn, mx) \<Rightarrow>
     (mn = None \<longleftrightarrow> (\<forall>i<n. h ! (bs ! i) = [])) \<and>
     (mx = None \<longleftrightarrow> mn = None) \<and>
     (\<forall>a. mn = Some a \<longrightarrow> a < n \<and> h ! (bs ! a) \<noteq> [] \<and> (\<forall>i<a. h ! (bs ! i) = [])) \<and>
     (\<forall>b. mx = Some b \<longrightarrow> b < n \<and> h ! (bs ! b) \<noteq> [] \<and>
          (\<forall>i. b < i \<and> i < n \<longrightarrow> h ! (bs ! i) = []))"
proof (induction n)
  case 0
  show ?case by simp
next
  case (Suc n)
  obtain mn mx where f: "fold (rangeStep h bs) [0..<n] (None, None) = (mn, mx)"
    by (cases "fold (rangeStep h bs) [0..<n] (None, None)")
  from Suc[unfolded f] have
    1: "mn = None \<longleftrightarrow> (\<forall>i<n. h ! (bs ! i) = [])" and
    2: "mx = None \<longleftrightarrow> mn = None" and
    3: "\<And>a. mn = Some a \<Longrightarrow> a < n \<and> h ! (bs ! a) \<noteq> [] \<and> (\<forall>i<a. h ! (bs ! i) = [])" and
    4: "\<And>b. mx = Some b \<Longrightarrow> b < n \<and> h ! (bs ! b) \<noteq> [] \<and>
          (\<forall>i. b < i \<and> i < n \<longrightarrow> h ! (bs ! i) = [])"
    by auto
  show ?case
  proof (cases "h ! (bs ! n) = []")
    case True
    then have s: "fold (rangeStep h bs) [0..<Suc n] (None, None) = (mn, mx)"
      by (simp add: f rangeStep_def setSize_def)
    from True 1 have n1: "mn = None \<longleftrightarrow> (\<forall>i<Suc n. h ! (bs ! i) = [])"
      by (auto simp: less_Suc_eq)
    from True 4 have n4: "\<And>b. mx = Some b \<Longrightarrow> b < Suc n \<and> h ! (bs ! b) \<noteq> [] \<and>
          (\<forall>i. b < i \<and> i < Suc n \<longrightarrow> h ! (bs ! i) = [])"
      by (auto simp: less_Suc_eq)
    from 3 have n3: "\<And>a. mn = Some a \<Longrightarrow> a < Suc n \<and> h ! (bs ! a) \<noteq> [] \<and> (\<forall>i<a. h ! (bs ! i) = [])"
      by auto
    from n1 2 n3 n4 show ?thesis unfolding s by simp
  next
    case False
    show ?thesis
    proof (cases mn)
      case None
      with False have s: "fold (rangeStep h bs) [0..<Suc n] (None, None) = (Some n, Some n)"
        by (simp add: f rangeStep_def setSize_def)
      from None 1 False show ?thesis unfolding s by auto
    next
      case (Some a)
      with False have s: "fold (rangeStep h bs) [0..<Suc n] (None, None) = (Some a, Some n)"
        by (simp add: f rangeStep_def setSize_def)
      from 3[OF Some] False show ?thesis unfolding s by auto
    qed
  qed
qed

text \<open>
  Claim C5. \<open>getBucketRange\<close> returns \<^verbatim>\<open>undefined\<close> exactly when every set of the array
  is empty. Otherwise it returns \<open>minBucket\<close>, the least index whose set has a card,
  and \<open>maxBucket\<close>, the greatest such index: \<open>minBucket \<le> maxBucket\<close>, and the sets at
  both indices are not empty.
\<close>

theorem getBucketRange_result:
  "(getBucketRange h bs = None \<longleftrightarrow> (\<forall>i<length bs. h ! (bs ! i) = [])) \<and>
   (getBucketRange h bs = Some r \<longrightarrow>
      minBucket r \<le> maxBucket r \<and> maxBucket r < length bs \<and>
      h ! (bs ! minBucket r) \<noteq> [] \<and> (\<forall>i<minBucket r. h ! (bs ! i) = []) \<and>
      h ! (bs ! maxBucket r) \<noteq> [] \<and>
      (\<forall>i. maxBucket r < i \<and> i < length bs \<longrightarrow> h ! (bs ! i) = []))"
proof -
  obtain mn mx where f: "fold (rangeStep h bs) [0..<length bs] (None, None) = (mn, mx)"
    by (cases "fold (rangeStep h bs) [0..<length bs] (None, None)")
  from rangeLoop[where n = "length bs" and h = h and bs = bs, unfolded f] have
    1: "mn = None \<longleftrightarrow> (\<forall>i<length bs. h ! (bs ! i) = [])" and
    2: "mx = None \<longleftrightarrow> mn = None" and
    3: "\<And>a. mn = Some a \<Longrightarrow> a < length bs \<and> h ! (bs ! a) \<noteq> [] \<and> (\<forall>i<a. h ! (bs ! i) = [])" and
    4: "\<And>b. mx = Some b \<Longrightarrow> b < length bs \<and> h ! (bs ! b) \<noteq> [] \<and>
          (\<forall>i. b < i \<and> i < length bs \<longrightarrow> h ! (bs ! i) = [])"
    by auto
  show ?thesis
  proof (cases mn)
    case None
    with 2 have "mx = None" by simp
    with None 1 show ?thesis by (simp add: getBucketRange_def f)
  next
    case (Some a)
    with 2 obtain b where b: "mx = Some b" by auto
    with Some have g: "getBucketRange h bs = Some \<lparr>minBucket = a, maxBucket = b\<rparr>"
      by (simp add: getBucketRange_def f)
    from 3[OF Some] 4[OF b] have "a \<le> b"
      by (metis linorder_not_less)
    with g 1 Some 3[OF Some] 4[OF b] show ?thesis by auto
  qed
qed

text \<open>An array with cards at the indices \<open>0\<close> and \<open>2\<close> of four.\<close>

theorem getBucketRange_result_witness:
  "getBucketRange [[1 :: nat], [], [3], []] [0, 1, 2, 3] = Some \<lparr>minBucket = 0, maxBucket = 2\<rparr> \<and>
   minBucket \<lparr>minBucket = 0, maxBucket = 2\<rparr> \<le> maxBucket \<lparr>minBucket = 0, maxBucket = 2\<rparr> \<and>
   [[1 :: nat], [], [3], []] ! ([0, 1, 2, 3] ! minBucket \<lparr>minBucket = 0, maxBucket = 2\<rparr>) \<noteq> [] \<and>
   [[1 :: nat], [], [3], []] ! ([0, 1, 2, 3] ! maxBucket \<lparr>minBucket = 0, maxBucket = 2\<rparr>) \<noteq> []"
proof -
  have 1: "getBucketRange [[1 :: nat], [], [3], []] [0, 1, 2, 3] = Some \<lparr>minBucket = 0, maxBucket = 2\<rparr>"
    by (simp add: getBucketRange_def rangeStep_def setSize_def upt_rec)
  note r = getBucketRange_result[of "[[1 :: nat], [], [3], []]" "[0, 1, 2, 3]"
             "\<lparr>minBucket = 0, maxBucket = 2\<rparr>", THEN conjunct2, THEN mp, OF 1]
  from r have a: "minBucket \<lparr>minBucket = 0, maxBucket = 2\<rparr> \<le> maxBucket \<lparr>minBucket = 0, maxBucket = 2\<rparr>"
    by (elim conjE)
  from r have b: "[[1 :: nat], [], [3], []] ! ([0, 1, 2, 3] ! minBucket \<lparr>minBucket = 0, maxBucket = 2\<rparr>) \<noteq> []"
    by (elim conjE)
  from r have c: "[[1 :: nat], [], [3], []] ! ([0, 1, 2, 3] ! maxBucket \<lparr>minBucket = 0, maxBucket = 2\<rparr>) \<noteq> []"
    by (elim conjE)
  from 1 a b c show ?thesis by (intro conjI)
qed

section \<open>Properties of practice\<close>

lemma fold_setAdd_set: "set (fold (\<lambda>c acc. setAdd acc c) xs acc) = set acc \<union> set xs"
  by (induction xs arbitrary: acc) (auto simp: setAdd_def)

lemma fold_result:
  "fold (\<lambda>c hh. hh[length h := setAdd (hh ! length h) c]) xs (h @ [acc]) =
     h @ [fold (\<lambda>c a. setAdd a c) xs acc]"
  by (induction xs arbitrary: acc) simp_all

lemma practice_Some:
  assumes "s < length h"
    and "(if day < int (length (elems a)) then arrayGet a day else None) = Some s"
  shows "practice h a day = (h @ [fold (\<lambda>c acc. setAdd acc c) (h ! s) []], length h)"
  using assms by (simp add: practice_def newSet_def fold_result nth_append)

lemma practice_None:
  assumes "(if day < int (length (elems a)) then arrayGet a day else None) = None"
  shows "practice h a day = (h @ [[]], length h)"
  using assms by (simp add: practice_def newSet_def)

text \<open>
  Claim C6 says that \<open>practice\<close> returns an empty set for every negative day. It does
  not when the array has a property of that name. \<open>toBucketSets\<close> makes such an
  array from the map \<open>{-1: {7}}\<close>: one new empty set at index \<open>0\<close>, and the map's set
  as the property \<^verbatim>\<open>-1\<close>. For this array and day \<open>-1\<close> the test of line 37 holds, and
  the set returned has the card \<open>7\<close>.
\<close>

theorem practice_negative_day:
  "toBucketSets 65536 [[7 :: nat]] [(- 1, 0)] =
     Inr ([[7], []], \<lparr>elems = [1], props = [- 1 \<mapsto> 0]\<rparr>) \<and>
   practice [[7 :: nat], []] \<lparr>elems = [1], props = [- 1 \<mapsto> 0]\<rparr> (- 1) = ([[7], [], [7]], 2) \<and>
   [[7 :: nat], [], [7]] ! 2 \<noteq> [] \<and>
   (7 :: nat) \<in> set ([[7], [], [7]] ! 2)"
  by (simp add: toBucketSets_def plusOne_small newSet_def arraySet_def
                practice_def arrayGet_def setAdd_def)

text \<open>
  Claim C6, amended. For an array of sets and an integer \<open>day\<close>, \<open>practice\<close> returns a
  set with the cards of \<open>buckets[day]\<close> when \<open>0 \<le> day < buckets.length\<close>, and an empty
  set when \<open>day \<ge> buckets.length\<close>. For a negative \<open>day\<close> it returns the cards of the
  set that the array has as the property of that name, and an empty set when the
  array has no such property; an array that has only its elements gives an empty set
  for every negative \<open>day\<close>. The set returned is a new object: it is none of the sets
  of the array, and the sets that were there are as before.
\<close>

theorem practice_result:
  assumes "\<forall>s \<in> set (elems a) \<union> ran (props a). s < length h"
    and "practice h a day = (h', r)"
  shows "(0 \<le> day \<and> day < int (length (elems a)) \<longrightarrow>
            set (h' ! r) = set (h ! (elems a ! nat day))) \<and>
         (int (length (elems a)) \<le> day \<longrightarrow> h' ! r = []) \<and>
         (day < 0 \<longrightarrow>
            set (h' ! r) = (case props a day of None \<Rightarrow> {} | Some s \<Rightarrow> set (h ! s))) \<and>
         (props a = Map.empty \<and> day < 0 \<longrightarrow> h' ! r = []) \<and>
         r = length h \<and> r \<notin> set (elems a) \<and> r \<notin> ran (props a) \<and>
         length h' = Suc (length h) \<and> (\<forall>i<length h. h' ! i = h ! i)"
proof -
  from assms(1) have fresh: "length h \<notin> set (elems a)" "length h \<notin> ran (props a)" by auto
  define g where "g = (if day < int (length (elems a)) then arrayGet a day else None)"
  have shape: "r = length h \<and> length h' = Suc (length h) \<and> (\<forall>i<length h. h' ! i = h ! i) \<and>
               set (h' ! r) = (case g of None \<Rightarrow> {} | Some s \<Rightarrow> set (h ! s)) \<and>
               (g = None \<longrightarrow> h' ! r = [])"
  proof (cases g)
    case None
    with practice_None[of day a h] assms(2) have "h' = h @ [[]]" "r = length h"
      by (simp_all add: g_def)
    with None show ?thesis by (simp add: nth_append)
  next
    case (Some s)
    have "s \<in> set (elems a) \<union> ran (props a)"
    proof (cases "0 \<le> day")
      case True
      with Some have "day < int (length (elems a))" "s = elems a ! nat day"
        by (auto simp: g_def arrayGet_def split: if_splits)
      then show ?thesis using True by (simp add: nat_less_iff)
    next
      case False
      with Some have "props a day = Some s" by (auto simp: g_def arrayGet_def split: if_splits)
      then show ?thesis by (auto simp: ran_def)
    qed
    with assms(1) have v: "s < length h" by blast
    from practice_Some[OF v, of day a] Some assms(2)
    have "h' = h @ [fold (\<lambda>c acc. setAdd acc c) (h ! s) []]" "r = length h"
      by (simp_all add: g_def)
    with Some show ?thesis by (simp add: nth_append fold_setAdd_set)
  qed
  have g1: "g = Some (elems a ! nat day)" if "0 \<le> day \<and> day < int (length (elems a))"
    using that by (simp add: g_def arrayGet_def)
  have g2: "g = None" if "int (length (elems a)) \<le> day"
    using that by (simp add: g_def)
  have g3: "g = props a day" if "day < 0"
    using that by (simp add: g_def arrayGet_def)
  have 1: "0 \<le> day \<and> day < int (length (elems a)) \<longrightarrow>
            set (h' ! r) = set (h ! (elems a ! nat day))"
    using shape g1 by auto
  have 2: "int (length (elems a)) \<le> day \<longrightarrow> h' ! r = []"
    using shape g2 by auto
  have 3: "day < 0 \<longrightarrow>
            set (h' ! r) = (case props a day of None \<Rightarrow> {} | Some s \<Rightarrow> set (h ! s))"
    using shape g3 by auto
  have 4: "props a = Map.empty \<and> day < 0 \<longrightarrow> h' ! r = []"
    using shape g3 by auto
  from shape have 5: "r = length h" and 6: "length h' = Suc (length h)"
    and 7: "\<forall>i<length h. h' ! i = h ! i"
    by simp_all
  from fresh 5 have 8: "r \<notin> set (elems a)" and 9: "r \<notin> ran (props a)" by simp_all
  from 1 2 3 4 5 8 9 6 7 show ?thesis by (intro conjI)
qed

text \<open>Day \<open>0\<close> of an array of three sets.\<close>

theorem practice_result_witness:
  "practice [[1 :: nat, 5], [], [3]] \<lparr>elems = [0, 1, 2], props = Map.empty\<rparr> 0 =
     ([[1, 5], [], [3], [1, 5]], 3) \<and>
   (0 :: int) \<le> 0 \<and> (0 :: int) < int (length (elems \<lparr>elems = [0, 1, 2], props = Map.empty\<rparr>)) \<and>
   set ([[1 :: nat, 5], [], [3], [1, 5]] ! 3) =
     set ([[1 :: nat, 5], [], [3]] ! (elems \<lparr>elems = [0, 1, 2], props = Map.empty\<rparr> ! nat 0)) \<and>
   3 \<notin> set (elems \<lparr>elems = [0, 1, 2], props = Map.empty\<rparr>)"
proof -
  have 1: "\<forall>s \<in> set (elems \<lparr>elems = [0, 1, 2], props = Map.empty\<rparr>) \<union>
           ran (props \<lparr>elems = [0, 1, 2], props = Map.empty\<rparr>).
      s < length [[1 :: nat, 5], [], [3]]"
    by simp
  have 2: "practice [[1 :: nat, 5], [], [3]] \<lparr>elems = [0, 1, 2], props = Map.empty\<rparr> 0 =
     ([[1, 5], [], [3], [1, 5]], 3)"
    by (simp add: practice_def newSet_def arrayGet_def setAdd_def)
  have 3: "(0 :: int) \<le> 0 \<and> (0 :: int) < int (length (elems \<lparr>elems = [0, 1, 2], props = Map.empty\<rparr>))"
    by simp
  note r = practice_result[OF 1 2]
  from r 3 have a: "set ([[1 :: nat, 5], [], [3], [1, 5]] ! 3) =
     set ([[1 :: nat, 5], [], [3]] ! (elems \<lparr>elems = [0, 1, 2], props = Map.empty\<rparr> ! nat 0))"
    by blast
  from r have b: "3 \<notin> set (elems \<lparr>elems = [0, 1, 2], props = Map.empty\<rparr>)"
    by blast
  from 2 3 a b show ?thesis by blast
qed

section \<open>Properties of toBucketSets\<close>

lemma arrayFromNewSets_eq:
  "arrayFromNewSets n h = (h @ replicate n [], [length h..<length h + n])"
proof (induction n arbitrary: h)
  case 0
  show ?case by simp
next
  case (Suc n)
  have "[length h..<length h + Suc n] = length h # [Suc (length h)..<Suc (length h) + n]"
    by (simp add: upt_rec)
  with Suc[of "h @ [[]]"] show ?case
    by (simp add: newSet_def replicate_app_Cons_same)
qed

lemma fold_max_eq: "fold max xs (a :: int) = Max (insert a (set xs))"
  using Max.set_eq_fold[of a xs] by simp

lemma fold_arraySet_length:
  "length (elems (fold (\<lambda>(bucket, flashcards) arr. arraySet arr bucket flashcards) m arr)) =
     length (elems arr)"
  by (induction m arbitrary: arr) (auto simp: arraySet_def)

lemma fold_arraySet_nth:
  "distinct (map fst m) \<Longrightarrow> i < length (elems arr) \<Longrightarrow>
   elems (fold (\<lambda>(bucket, flashcards) arr. arraySet arr bucket flashcards) m arr) ! i =
     (case map_of m (int i) of Some s \<Rightarrow> s | None \<Rightarrow> elems arr ! i)"
proof (induction m arbitrary: arr)
  case Nil
  show ?case by simp
next
  case (Cons e m)
  obtain b s where e: "e = (b, s)" by (cases e)
  from Cons.prems have d: "distinct (map fst m)" and nb: "b \<notin> fst ` set m" by (auto simp: e)
  from Cons.prems(2) have len: "i < length (elems (arraySet arr b s))" by (simp add: arraySet_def)
  show ?case
  proof (cases "b = int i")
    case True
    with nb have "map_of m (int i) = None" by (simp add: map_of_eq_None_iff)
    moreover from True Cons.prems(2) have "elems (arraySet arr b s) ! i = s"
      by (simp add: arraySet_def)
    ultimately show ?thesis using Cons.IH[OF d len] True by (simp add: e)
  next
    case False
    then have "elems (arraySet arr b s) ! i = elems arr ! i" by (auto simp: arraySet_def)
    with Cons.IH[OF d len] False show ?thesis by (simp add: e split: option.splits)
  qed
qed

lemma fold_arraySet_props:
  "distinct (map fst m) \<Longrightarrow>
   props (fold (\<lambda>(bucket, flashcards) arr. arraySet arr bucket flashcards) m arr) k =
     (if k < 0 then (case map_of m k of Some s \<Rightarrow> Some s | None \<Rightarrow> props arr k)
      else props arr k)"
proof (induction m arbitrary: arr)
  case Nil
  show ?case by simp
next
  case (Cons e m)
  obtain b s where e: "e = (b, s)" by (cases e)
  from Cons.prems have d: "distinct (map fst m)" and nb: "b \<notin> fst ` set m" by (auto simp: e)
  show ?case
  proof (cases "b = k")
    case True
    with nb have "map_of m k = None" by (simp add: map_of_eq_None_iff)
    with Cons.IH[OF d, of "arraySet arr b s"] True show ?thesis
      by (simp add: e arraySet_def)
  next
    case False
    then have "props (arraySet arr b s) k = props arr k" by (simp add: arraySet_def)
    with Cons.IH[OF d, of "arraySet arr b s"] False show ?thesis
      by (simp add: e split: option.splits)
  qed
qed

text \<open>No key exceeds \<^verbatim>\<open>maxBucket\<close>.\<close>

lemma key_le_maxBucket:
  assumes "b \<in> set (map fst (m :: BucketMap))"
  shows "b \<le> fold max (map fst m) 0"
proof -
  have "fold max (map fst m) 0 = Max (insert 0 (set (map fst m)))" by (rule fold_max_eq)
  moreover from assms have "b \<le> Max (insert 0 (set (map fst m)))" by (intro Max_ge) auto
  ultimately show ?thesis by simp
qed

text \<open>
  From the bucket number \<open>2\<^sup>3\<^sup>2 - 1\<close> on, \<^verbatim>\<open>maxBucket + 1\<close> is no length of an array: the
  sum is exact up to \<open>2\<^sup>5\<^sup>3\<close> and never falls below \<open>2\<^sup>5\<^sup>3 - 1\<close> after that.
\<close>

lemma plusOne_large:
  assumes "4294967295 \<le> k"
  shows "4294967295 < plusOne k"
proof (cases "k + 1 \<le> 9007199254740992")
  case True
  with assms have "\<bar>k + 1\<bar> \<le> 2 ^ 53" by simp
  from plusOne_exact[OF this] assms show ?thesis by simp
next
  case False
  define q :: rat where "q = of_int (k + 1)"
  from False have "9007199254740992 < k + 1" by simp
  then have "(of_int 9007199254740992 :: rat) < of_int (k + 1)" by (simp only: of_int_less_iff)
  then have big: "9007199254740992 < q" by (simp add: q_def)
  then have q0: "0 < q" by simp
  have p53: "(2 :: rat) ^ 53 = 9007199254740992" by simp
  from toDouble_error[OF q0] have "\<bar>toDouble q - q\<bar> \<le> q / 9007199254740992" by (simp add: p53)
  with big have "4294967295 < toDouble q" by linarith
  moreover have "of_int (plusOne k) = toDouble q"
    using plusOne_double[of k] by (simp add: jsAdd_def q_def)
  ultimately have "(of_int 4294967295 :: rat) < of_int (plusOne k)" by simp
  then show ?thesis by (simp only: of_int_less_iff)
qed

lemma maxBucket_small:
  "fold max (map fst (m :: BucketMap)) 0 < 4294967295 \<longleftrightarrow> (\<forall>k \<in> set (map fst m). k < 4294967295)"
proof -
  have "finite (insert 0 (set (map fst m)))" "insert 0 (set (map fst m)) \<noteq> {}" by simp_all
  then have "Max (insert 0 (set (map fst m))) < 4294967295 \<longleftrightarrow>
             (\<forall>k \<in> insert 0 (set (map fst m)). k < 4294967295)"
    by (rule Max_less_iff)
  then show ?thesis by (simp add: fold_max_eq)
qed

text \<open>No key is past the end of the array that \<open>toBucketSets\<close> makes.\<close>

lemma key_inside_array:
  assumes "b \<in> set (map fst (m :: BucketMap))"
    and "plusOne (fold max (map fst m) 0) \<le> 4294967295"
  shows "b < plusOne (fold max (map fst m) 0)"
proof -
  define mx where "mx = fold max (map fst m) 0"
  have "mx = Max (insert 0 (set (map fst m)))" by (simp add: mx_def fold_max_eq)
  then have mx0: "0 \<le> mx" by simp
  have "\<not> 4294967295 \<le> mx"
  proof
    assume "4294967295 \<le> mx"
    then have "4294967295 < plusOne mx" by (rule plusOne_large)
    with assms(2) show False by (simp add: mx_def)
  qed
  with mx0 have "\<bar>mx + 1\<bar> \<le> 2 ^ 53" by simp
  then have "plusOne mx = mx + 1" by (rule plusOne_exact)
  moreover from assms(1) have "b \<le> mx" unfolding mx_def by (rule key_le_maxBucket)
  ultimately show ?thesis by (simp add: mx_def)
qed

text \<open>
  Claim C4 says that \<open>toBucketSets\<close> returns an array of length
  \<open>max (keys \<union> {0}) + 1\<close> for every map with non-negative keys. For the map with the
  one key \<open>4294967295 = 2\<^sup>3\<^sup>2 - 1\<close> that length is \<open>2\<^sup>3\<^sup>2\<close>, which no array has:
  \<^verbatim>\<open>Array.from\<close> throws a \<^verbatim>\<open>RangeError\<close> and \<open>toBucketSets\<close> returns nothing.
\<close>

theorem toBucketSets_large_key:
  "wfBuckets [[] :: nat list] [(4294967295, 0)] \<and>
   (0 :: int) \<le> 4294967295 \<and>
   nat (Max (insert 0 (set (map fst [(4294967295 :: int, 0 :: nat)])))) + 1 = 4294967296 \<and>
   toBucketSets 65536 [[] :: nat list] [(4294967295, 0)] = Inl RangeError"
proof -
  have "\<bar>4294967295 + 1 :: int\<bar> \<le> 2 ^ 53" by simp
  from plusOne_exact[OF this] have "plusOne 4294967295 = 4294967296" by simp
  then show ?thesis by (simp add: wfBuckets_def toBucketSets_def)
qed

text \<open>
  Claim C4, amended. For a map whose keys are all below \<open>2\<^sup>3\<^sup>2 - 1\<close> and which has
  fewer entries than a call takes arguments, \<open>toBucketSets\<close> returns an array of length
  \<open>max (keys \<union> {0}) + 1\<close>. The set at index \<open>i\<close> is the map's set of bucket \<open>i\<close> when
  \<open>i\<close> is a key, and a new empty set otherwise, so the array has no gap and each index
  has the cards of its bucket. For the empty map the array is one empty set. The
  set of a negative key becomes the property of that name and changes no element; a
  map with non-negative keys gives an array that has only its elements. For every
  other map, one with a key from \<open>2\<^sup>3\<^sup>2 - 1\<close> on or with too many entries,
  \<open>toBucketSets\<close> throws a \<^verbatim>\<open>RangeError\<close>.
\<close>

theorem toBucketSets_result:
  assumes "wfBuckets h m"
  shows "(length m < argLimit \<and> (\<forall>k \<in> set (map fst m). k < 4294967295) \<longrightarrow>
          (\<exists>h' arr. toBucketSets argLimit h m = Inr (h', arr) \<and>
             length (elems arr) = nat (Max (insert 0 (set (map fst m)))) + 1 \<and>
             (\<forall>i<length (elems arr). case mapGet m (int i) of
                  Some s \<Rightarrow> elems arr ! i = s \<and> h' ! (elems arr ! i) = h ! s
                | None \<Rightarrow> length h \<le> elems arr ! i \<and> h' ! (elems arr ! i) = []) \<and>
             (\<forall>i<length (elems arr). set (h' ! (elems arr ! i)) = bucketCards h m (int i)) \<and>
             (m = [] \<longrightarrow> length (elems arr) = 1 \<and> h' ! (elems arr ! 0) = []) \<and>
             (\<forall>k. props arr k = (if k < 0 then mapGet m k else None)) \<and>
             ((\<forall>k \<in> set (map fst m). 0 \<le> k) \<longrightarrow> props arr = Map.empty))) \<and>
         (argLimit \<le> length m \<or> (\<exists>k \<in> set (map fst m). 4294967295 \<le> k) \<longrightarrow>
          toBucketSets argLimit h m = Inl RangeError)"
proof -
  define mx where "mx = fold max (map fst m) 0"
  have mx: "mx = Max (insert 0 (set (map fst m)))" by (simp add: mx_def fold_max_eq)
  have mx0: "0 \<le> mx" unfolding mx by simp
  have small: "mx < 4294967295 \<longleftrightarrow> (\<forall>k \<in> set (map fst m). k < 4294967295)"
    unfolding mx_def by (rule maxBucket_small)
  have err: "toBucketSets argLimit h m = Inl RangeError"
    if "argLimit \<le> length m \<or> (\<exists>k \<in> set (map fst m). 4294967295 \<le> k)"
  proof (cases "argLimit \<le> length m")
    case True
    then show ?thesis by (simp add: toBucketSets_def)
  next
    case False
    with that have "\<not> (\<forall>k \<in> set (map fst m). k < 4294967295)" by fastforce
    with small have "\<not> mx < 4294967295" by blast
    then have "4294967295 \<le> mx" by simp
    then have "4294967295 < plusOne mx" by (rule plusOne_large)
    then show ?thesis by (simp add: toBucketSets_def Let_def mx_def)
  qed
  have ok: "\<exists>h' arr. toBucketSets argLimit h m = Inr (h', arr) \<and>
             length (elems arr) = nat (Max (insert 0 (set (map fst m)))) + 1 \<and>
             (\<forall>i<length (elems arr). case mapGet m (int i) of
                  Some s \<Rightarrow> elems arr ! i = s \<and> h' ! (elems arr ! i) = h ! s
                | None \<Rightarrow> length h \<le> elems arr ! i \<and> h' ! (elems arr ! i) = []) \<and>
             (\<forall>i<length (elems arr). set (h' ! (elems arr ! i)) = bucketCards h m (int i)) \<and>
             (m = [] \<longrightarrow> length (elems arr) = 1 \<and> h' ! (elems arr ! 0) = []) \<and>
             (\<forall>k. props arr k = (if k < 0 then mapGet m k else None)) \<and>
             ((\<forall>k \<in> set (map fst m). 0 \<le> k) \<longrightarrow> props arr = Map.empty)"
    if lim: "length m < argLimit" and keys: "\<forall>k \<in> set (map fst m). k < 4294967295"
  proof -
    from keys small have ms: "mx < 4294967295" by simp
    with mx0 have "\<bar>mx + 1\<bar> \<le> 2 ^ 53" by simp
    then have p: "plusOne mx = mx + 1" by (rule plusOne_exact)
    define n where "n = nat (mx + 1)"
    from mx0 have n: "n = nat mx + 1" by (simp add: n_def nat_add_distrib)
    define h' where "h' = h @ replicate n []"
    define arr where "arr = fold (\<lambda>(bucket, flashcards) arr. arraySet arr bucket flashcards) m
                      \<lparr>elems = [length h..<length h + n], props = Map.empty\<rparr>"
    from lim ms have r: "toBucketSets argLimit h m = Inr (h', arr)"
      by (simp add: toBucketSets_def Let_def mx_def[symmetric] p arrayFromNewSets_eq
                    n_def[symmetric] h'_def arr_def)
    have len: "length (elems arr) = n" by (simp add: arr_def fold_arraySet_length)
    from assms have d: "distinct (map fst m)" by (simp add: wfBuckets_def)
    have nth: "elems arr ! i = (case mapGet m (int i) of Some s \<Rightarrow> s | None \<Rightarrow> length h + i)"
      if "i < n" for i
      using fold_arraySet_nth[OF d, of i "\<lparr>elems = [length h..<length h + n], props = Map.empty\<rparr>"] that
      by (simp add: arr_def mapGet_def split: option.splits)
    have 2: "case mapGet m (int i) of
                Some s \<Rightarrow> elems arr ! i = s \<and> h' ! (elems arr ! i) = h ! s
              | None \<Rightarrow> length h \<le> elems arr ! i \<and> h' ! (elems arr ! i) = []" if "i < n" for i
    proof (cases "mapGet m (int i)")
      case None
      with nth[OF that] that show ?thesis by (simp add: h'_def nth_append)
    next
      case (Some s)
      with assms have "s < length h" by (simp add: wf_get wf_valid)
      with Some nth[OF that] show ?thesis by (simp add: h'_def nth_append)
    qed
    have 3: "set (h' ! (elems arr ! i)) = bucketCards h m (int i)" if "i < n" for i
      using 2[OF that] by (simp add: bucketCards_def split: option.splits)
    have 4: "m = [] \<longrightarrow> length (elems arr) = 1 \<and> h' ! (elems arr ! 0) = []"
      using 2[of 0] len n by (auto simp: mapGet_def mx)
    have 5: "props arr k = (if k < 0 then mapGet m k else None)" for k
      using fold_arraySet_props[OF d, of "\<lparr>elems = [length h..<length h + n], props = Map.empty\<rparr>" k]
      by (simp add: arr_def mapGet_def split: option.splits)
    have 6: "(\<forall>k \<in> set (map fst m). 0 \<le> k) \<longrightarrow> props arr = Map.empty"
    proof
      assume nn: "\<forall>k \<in> set (map fst m). 0 \<le> k"
      have "props arr k = None" for k
      proof (cases "k < 0")
        case True
        with nn have "k \<notin> fst ` set m" by fastforce
        then have "map_of m k = None" by (simp add: map_of_eq_None_iff)
        with True show ?thesis by (simp add: 5 mapGet_def)
      next
        case False
        then show ?thesis by (simp add: 5)
      qed
      then show "props arr = Map.empty" by (intro ext)
    qed
    from len n mx have 1: "length (elems arr) = nat (Max (insert 0 (set (map fst m)))) + 1" by simp
    from 2 3 len have e2: "\<forall>i<length (elems arr). case mapGet m (int i) of
                  Some s \<Rightarrow> elems arr ! i = s \<and> h' ! (elems arr ! i) = h ! s
                | None \<Rightarrow> length h \<le> elems arr ! i \<and> h' ! (elems arr ! i) = []"
      and e3: "\<forall>i<length (elems arr). set (h' ! (elems arr ! i)) = bucketCards h m (int i)"
      by simp_all
    from 5 have e5: "\<forall>k. props arr k = (if k < 0 then mapGet m k else None)" by blast
    from r 1 e2 e3 4 e5 6 show ?thesis by (intro exI[of _ h'] exI[of _ arr] conjI)
  qed
  from ok err show ?thesis by blast
qed

text \<open>The buckets \<open>0\<close>, \<open>3\<close> and \<open>1\<close>, entered in this order.\<close>

theorem toBucketSets_result_witness:
  "wfBuckets [[7 :: nat], [8], [9]] [(0, 0), (3, 2), (1, 1)] \<and>
   length [(0 :: int, 0 :: nat), (3, 2), (1, 1)] < 65536 \<and>
   toBucketSets 65536 [[7 :: nat], [8], [9]] [(0, 0), (3, 2), (1, 1)] =
     Inr ([[7], [8], [9], [], [], [], []], \<lparr>elems = [0, 1, 5, 2], props = Map.empty\<rparr>) \<and>
   length (elems \<lparr>elems = [0, 1, 5, 2], props = Map.empty\<rparr>) =
     nat (Max (insert 0 (set (map fst [(0 :: int, 0 :: nat), (3, 2), (1, 1)])))) + 1"
proof -
  have 1: "wfBuckets [[7 :: nat], [8], [9]] [(0, 0), (3, 2), (1, 1)]" by (simp add: wfBuckets_def)
  have 2: "length [(0 :: int, 0 :: nat), (3, 2), (1, 1)] < 65536" by simp
  have 3: "\<forall>k \<in> set (map fst [(0 :: int, 0 :: nat), (3, 2), (1, 1)]). k < 4294967295" by simp
  have p: "plusOne 3 = 4" using plusOne_exact[of 3] by simp
  have af: "arrayFromNewSets 4 [[7 :: nat], [8], [9]] = ([[7], [8], [9], [], [], [], []], [3, 4, 5, 6])"
    by code_simp
  have 4: "toBucketSets 65536 [[7 :: nat], [8], [9]] [(0, 0), (3, 2), (1, 1)] =
     Inr ([[7], [8], [9], [], [], [], []], \<lparr>elems = [0, 1, 5, 2], props = Map.empty\<rparr>)"
    by (simp add: toBucketSets_def p af arraySet_def)
  from toBucketSets_result[OF 1, of 65536] 2 3
  obtain h' arr where r: "toBucketSets 65536 [[7 :: nat], [8], [9]] [(0, 0), (3, 2), (1, 1)] = Inr (h', arr)"
    "length (elems arr) = nat (Max (insert 0 (set (map fst [(0 :: int, 0 :: nat), (3, 2), (1, 1)])))) + 1"
    by blast
  from r(1) 4 have "arr = \<lparr>elems = [0, 1, 5, 2], props = Map.empty\<rparr>" by simp
  with r(2) have 5: "length (elems \<lparr>elems = [0, 1, 5, 2], props = Map.empty\<rparr>) =
     nat (Max (insert 0 (set (map fst [(0 :: int, 0 :: nat), (3, 2), (1, 1)])))) + 1"
    by simp
  from 1 2 4 5 show ?thesis by (intro conjI)
qed

section \<open>Flashcards with the same fields\<close>




end
